theory Spec2Isabelle
  imports Main
begin

section \<open>Identifiers and wire data\<close>

text \<open>
  The relay exists in several drafts in the repository. Three of them are embedded here:
  \<^item> the ESM draft (first program of \<^verbatim>\<open>src/server.js\<close>): no duplicate check;
  \<^item> the windowed draft (second program of \<^verbatim>\<open>src/server.js\<close>): duplicate check by a
    5000 ms lookback on the stored timestamp;
  \<^item> the registry draft (second program of \<^verbatim>\<open>src/models/User.js\<close>): the
    \<^verbatim>\<open>activeConnections\<close> map and the duplicate check by \<^verbatim>\<open>messageId\<close>.

  Each handler is embedded as one atomic state transformer: the \<^verbatim>\<open>await\<close> points of a
  handler are not interleaved with other handlers.
\<close>

definition isHexDigit :: "char \<Rightarrow> bool" where
  "isHexDigit c \<longleftrightarrow> c \<in> set ''0123456789abcdefABCDEF''"

text \<open>
  Modelled from the spec: \<^verbatim>\<open>mongoose.Types.ObjectId.isValid\<close> is library code that is not part
  of the repository. Section 4.1 of the specification describes it: a value is valid iff it is
  a fixed-length hex token of the store's canonical identifier format, which for the store used
  here is 24 hexadecimal digits.
\<close>

definition ObjectId_isValid :: "string \<Rightarrow> bool" where
  "ObjectId_isValid v \<longleftrightarrow> length v = 24 \<and> list_all isHexDigit v"

definition lowerHex :: "char \<Rightarrow> char" where
  "lowerHex c =
     (if c = CHR ''A'' then CHR ''a'' else if c = CHR ''B'' then CHR ''b''
      else if c = CHR ''C'' then CHR ''c'' else if c = CHR ''D'' then CHR ''d''
      else if c = CHR ''E'' then CHR ''e'' else if c = CHR ''F'' then CHR ''f'' else c)"

text \<open>
  \<^verbatim>\<open>ObjectId.createFromHexString\<close>: the identifier is kept as its 12 bytes, so that two hex
  strings that differ only in letter case denote the same identifier. The stored identifier is
  represented by its lower-case hex form.
\<close>

definition createFromHexString :: "string \<Rightarrow> string" where
  "createFromHexString v = map lowerHex v"

text \<open>
  JavaScript truthiness of the fields that the handlers test with \<^verbatim>\<open>!x\<close>, \<^verbatim>\<open>x ? a : b\<close> and
  \<^verbatim>\<open>x || y\<close>: an absent field and the empty string are falsy, and so is the number 0.
\<close>

definition truthy :: "string option \<Rightarrow> bool" where
  "truthy v = (case v of None \<Rightarrow> False | Some x \<Rightarrow> x \<noteq> [])"

definition truthyNum :: "int option \<Rightarrow> bool" where
  "truthyNum v = (case v of None \<Rightarrow> False | Some n \<Rightarrow> n \<noteq> 0)"

text \<open>
  The query parameters of the upgrade request, as \<^verbatim>\<open>parse(req.url, true)\<close> returns them:
  each parameter is absent or a string.
\<close>

record handshake =
  h_gigId :: "string option"
  h_sellerId :: "string option"
  h_userId :: "string option"

text \<open>\<^verbatim>\<open>ws.query = { gigId, sellerId, userId }\<close>, which are also the variables that the
  handlers of the connection close over.\<close>

record query =
  q_gigId :: string
  q_sellerId :: string
  q_userId :: string

text \<open>
  The inbound payload \<^verbatim>\<open>{ gigId, senderId, text, recipientId?, timestamp?, messageId? }\<close>
  after \<^verbatim>\<open>JSON.parse\<close>. Identifiers and the text are strings, the timestamp is a number of
  milliseconds; every field may be absent.
\<close>

record inboundMessage =
  m_gigId :: "string option"
  m_senderId :: "string option"
  m_text :: "string option"
  m_recipientId :: "string option"
  m_timestamp :: "int option"
  m_messageId :: "string option"

text \<open>\<^verbatim>\<open>message.timestamp || Date.now()\<close>, with the reading \<open>now\<close> of the clock.\<close>

definition timestampOrNow :: "inboundMessage \<Rightarrow> int \<Rightarrow> int" where
  "timestampOrNow message now =
     (if truthyNum (m_timestamp message) then the (m_timestamp message) else now)"

text \<open>A received frame: \<^verbatim>\<open>JSON.parse(data)\<close> throws on \<open>Unparsable\<close>.\<close>

datatype frame = Unparsable | Payload inboundMessage

text \<open>A document of the Message collection, with the \<^verbatim>\<open>_id\<close> that the store assigns. The
  paths \<open>read\<close> and \<open>messageId\<close> are absent from a document unless something stored them.\<close>

record storedMessage =
  d_id :: nat
  d_gigId :: string
  d_userId :: string
  d_recipientId :: "string option"
  d_text :: string
  d_timestamp :: int
  d_read :: "bool option"
  d_messageId :: "string option"

text \<open>The result of \<^verbatim>\<open>findById(...).populate("userId", "name avatar").lean()\<close>: the stored
  message with the name and avatar of its sender joined in (absent when the user is unknown).\<close>

record populatedMessage =
  p_doc :: storedMessage
  p_sender :: "(string \<times> string) option"

text \<open>What \<^verbatim>\<open>JSON.stringify\<close> is applied to before \<^verbatim>\<open>send\<close>.\<close>

datatype payload = ErrorPayload string | MessagePayload populatedMessage

section \<open>Sockets and the server state\<close>

datatype readyState = CONNECTING | OPEN | CLOSING | CLOSED

text \<open>
  A \<^verbatim>\<open>ws\<close> object. \<open>outbox\<close> lists the arguments of the calls of \<^verbatim>\<open>ws.send\<close> in order,
  \<open>closeCalls\<close> those of \<^verbatim>\<open>ws.close\<close>. \<open>userConnections\<close> is the address of the Set that the
  close handler of the registry draft closes over.
\<close>

record socket =
  query :: "query option"
  readyState :: readyState
  outbox :: "payload list"
  closeCalls :: "(nat \<times> string) list"
  userConnections :: "nat option"

text \<open>
  The state of the process. Sockets and Sets are objects with identity, so both live in a store
  indexed by addresses: \<open>socks\<close> for the sockets, \<open>buckets\<close> for the Sets of sockets (in
  insertion order). \<open>clients\<close> is \<^verbatim>\<open>wss.clients\<close>; \<open>activeConnections\<close> is the Map from a
  userId to the address of its Set, in insertion order. \<open>messages\<close> is the Message collection
  and \<open>profiles\<close> the name and avatar of each user of the User collection.
\<close>

record server =
  clients :: "nat list"
  socks :: "nat \<Rightarrow> socket"
  nextSock :: nat
  messages :: "storedMessage list"
  profiles :: "string \<Rightarrow> (string \<times> string) option"
  activeConnections :: "(string \<times> nat) list"
  buckets :: "nat \<Rightarrow> nat list"
  nextBucket :: nat

definition newSocket :: socket where
  "newSocket = \<lparr>query = None, readyState = OPEN, outbox = [], closeCalls = [],
     userConnections = None\<rparr>"

definition init :: "(string \<Rightarrow> (string \<times> string) option) \<Rightarrow> server" where
  "init ps = \<lparr>clients = [], socks = (\<lambda>_. newSocket), nextSock = 0, messages = [],
     profiles = ps, activeConnections = [], buckets = (\<lambda>_. []), nextBucket = 0\<rparr>"

text \<open>\<^verbatim>\<open>ws.send(JSON.stringify(p))\<close> on socket \<open>c\<close>.\<close>

definition send :: "server \<Rightarrow> nat \<Rightarrow> payload \<Rightarrow> server" where
  "send s c p = s\<lparr>socks := (socks s)(c := (socks s c)\<lparr>outbox := outbox (socks s c) @ [p]\<rparr>)\<rparr>"

text \<open>\<^verbatim>\<open>ws.close(code, reason)\<close> on socket \<open>c\<close>: an open socket starts its closing handshake.\<close>

definition close :: "server \<Rightarrow> nat \<Rightarrow> nat \<Rightarrow> string \<Rightarrow> server" where
  "close s c code reason =
     s\<lparr>socks := (socks s)(c := (socks s c)\<lparr>
        readyState := (if readyState (socks s c) = OPEN then CLOSING else readyState (socks s c)),
        closeCalls := closeCalls (socks s c) @ [(code, reason)]\<rparr>)\<rparr>"

text \<open>The server library accepts an upgrade: a new open socket joins \<^verbatim>\<open>wss.clients\<close>
  before the connection handler runs.\<close>

definition accept :: "server \<Rightarrow> server" where
  "accept s = s\<lparr>clients := clients s @ [nextSock s],
                socks := (socks s)(nextSock s := newSocket),
                nextSock := Suc (nextSock s)\<rparr>"

text \<open>The library's part of a close event: the socket is closed and leaves \<^verbatim>\<open>wss.clients\<close>.\<close>

definition emitClose :: "server \<Rightarrow> nat \<Rightarrow> server" where
  "emitClose s c = s\<lparr>clients := removeAll c (clients s),
                     socks := (socks s)(c := (socks s c)\<lparr>readyState := CLOSED\<rparr>)\<rparr>"

section \<open>The store\<close>

text \<open>
  Modelled from the spec: the Message collection is the external store of section 6, with
  \<^verbatim>\<open>create\<close>, \<^verbatim>\<open>findById\<close> and \<^verbatim>\<open>findOne\<close>. It gives each document a fresh \<^verbatim>\<open>_id\<close>. A date
  is valid when it lies within 8.64e15 ms of the epoch; a record or a query with an invalid
  date is refused.
\<close>

definition validDate :: "int \<Rightarrow> bool" where
  "validDate t \<longleftrightarrow> - 8640000000000000 \<le> t \<and> t \<le> 8640000000000000"

definition freshId :: "storedMessage list \<Rightarrow> nat" where
  "freshId docs = Suc (foldr max (map d_id docs) 0)"

definition findById :: "storedMessage list \<Rightarrow> nat \<Rightarrow> storedMessage option" where
  "findById docs i = find (\<lambda>d. d_id d = i) docs"

definition populate :: "server \<Rightarrow> storedMessage \<Rightarrow> populatedMessage" where
  "populate s d = \<lparr>p_doc = d, p_sender = profiles s (d_userId d)\<rparr>"

section \<open>Routing\<close>

text \<open>The test of the broadcast loop on one client, with the sender's \<open>gigId\<close>, \<open>sellerId\<close>
  and \<open>userId\<close> in \<open>q\<close>. \<^verbatim>\<open>WebSocket.OPEN\<close> is the ready state \<open>OPEN\<close>.\<close>

definition eligible :: "query \<Rightarrow> socket \<Rightarrow> bool" where
  "eligible q client \<longleftrightarrow>
     readyState client = OPEN \<and>
     (case query client of None \<Rightarrow> False
      | Some cq \<Rightarrow> q_gigId cq = q_gigId q \<and>
                  (q_userId cq = q_sellerId q \<or> q_userId cq = q_userId q))"

text \<open>\<^verbatim>\<open>wss.clients.forEach\<close> over the clients \<open>cs\<close>.\<close>

fun broadcast :: "query \<Rightarrow> payload \<Rightarrow> nat list \<Rightarrow> server \<Rightarrow> server" where
  "broadcast q p [] s = s"
| "broadcast q p (client # rest) s =
     broadcast q p rest (if eligible q (socks s client) then send s client p else s)"

text \<open>
  The Message schema of the repository (\<^verbatim>\<open>src/unnamed/part_000\<close>) declares the paths
  \<^verbatim>\<open>gigId\<close>, \<^verbatim>\<open>userId\<close>, \<^verbatim>\<open>recipientId\<close>, \<^verbatim>\<open>text\<close> and \<^verbatim>\<open>timestamp\<close>. A path of the record
  handed to \<^verbatim>\<open>Message.create\<close> that the schema does not declare is not stored: neither
  \<^verbatim>\<open>read\<close> nor \<^verbatim>\<open>messageId\<close> reaches the collection.
\<close>

definition MessageSchema :: "storedMessage \<Rightarrow> storedMessage" where
  "MessageSchema d = d\<lparr>d_read := None, d_messageId := None\<rparr>"

text \<open>The document that \<^verbatim>\<open>Message.create\<close> stores for an inbound message with timestamp
  \<open>ts\<close>, when the handler passes \<^verbatim>\<open>read: false\<close> and the message id \<open>mid\<close> (absent in the drafts
  that do not pass one).\<close>

definition newDocument :: "storedMessage list \<Rightarrow> inboundMessage \<Rightarrow> int \<Rightarrow> string option \<Rightarrow>
    storedMessage" where
  "newDocument docs m ts mid =
     MessageSchema
       \<lparr>d_id = freshId docs,
        d_gigId = createFromHexString (the (m_gigId m)),
        d_userId = createFromHexString (the (m_senderId m)),
        d_recipientId = (if truthy (m_recipientId m)
                         then Some (createFromHexString (the (m_recipientId m)))
                         else None),
        d_text = the (m_text m),
        d_timestamp = ts,
        d_read = Some False,
        d_messageId = mid\<rparr>"

text \<open>The tail that the three drafts share: \<^verbatim>\<open>Message.create\<close>, \<^verbatim>\<open>findById\<close> with
  \<^verbatim>\<open>populate\<close>, and the broadcast. \<^verbatim>\<open>create\<close> throws on an invalid date, which the handler
  catches.\<close>

definition persistAndRoute :: "server \<Rightarrow> nat \<Rightarrow> query \<Rightarrow> inboundMessage \<Rightarrow> int \<Rightarrow>
    string option \<Rightarrow> server" where
  "persistAndRoute s ws q m ts mid =
     (if \<not> validDate ts then send s ws (ErrorPayload ''Server error'')
      else
        let savedMessage = newDocument (messages s) m ts mid;
            s1 = s\<lparr>messages := messages s @ [savedMessage]\<rparr>
        in case findById (messages s1) (d_id savedMessage) of
             None \<Rightarrow> send s1 ws (ErrorPayload ''Failed to retrieve message details'')
           | Some populatedMessage \<Rightarrow>
               broadcast q (MessagePayload (populate s1 populatedMessage)) (clients s1) s1)"

text \<open>The two validation steps of a message, shared by the drafts.\<close>

definition missingFields :: "inboundMessage \<Rightarrow> bool" where
  "missingFields m \<longleftrightarrow> \<not> truthy (m_gigId m) \<or> \<not> truthy (m_senderId m) \<or> \<not> truthy (m_text m)"

definition invalidIds :: "inboundMessage \<Rightarrow> bool" where
  "invalidIds m \<longleftrightarrow>
     \<not> ObjectId_isValid (the (m_gigId m)) \<or>
     \<not> ObjectId_isValid (the (m_senderId m)) \<or>
     (truthy (m_recipientId m) \<and> \<not> ObjectId_isValid (the (m_recipientId m)))"

section \<open>The ESM draft\<close>

text \<open>The connection handler of the ESM and the windowed draft, run on the socket that
  \<open>accept\<close> has just created.\<close>

definition missingParams :: "handshake \<Rightarrow> bool" where
  "missingParams h \<longleftrightarrow> \<not> truthy (h_gigId h) \<or> \<not> truthy (h_sellerId h) \<or> \<not> truthy (h_userId h)"

definition invalidParams :: "handshake \<Rightarrow> bool" where
  "invalidParams h \<longleftrightarrow>
     \<not> ObjectId_isValid (the (h_gigId h)) \<or>
     \<not> ObjectId_isValid (the (h_sellerId h)) \<or>
     \<not> ObjectId_isValid (the (h_userId h))"

definition onConnection :: "server \<Rightarrow> handshake \<Rightarrow> server" where
  "onConnection s0 h =
     (let ws = nextSock s0; s = accept s0 in
      if missingParams h then
        close (send s ws (ErrorPayload ''Missing required query parameters''))
          ws 1008 ''Missing gigId, sellerId, or userId''
      else if invalidParams h then
        close (send s ws (ErrorPayload ''Invalid gigId, sellerId, or userId''))
          ws 1008 ''Invalid gigId, sellerId, or userId''
      else
        s\<lparr>socks := (socks s)(ws := (socks s ws)\<lparr>query :=
             Some \<lparr>q_gigId = the (h_gigId h), q_sellerId = the (h_sellerId h),
                   q_userId = the (h_userId h)\<rparr>\<rparr>)\<rparr>)"

text \<open>The message handler of the ESM draft on socket \<open>ws\<close> at time \<open>now\<close>. The handler is
  registered only on a socket that was admitted, that is, whose \<open>query\<close> is set.\<close>

definition onMessage_esm :: "int \<Rightarrow> server \<Rightarrow> nat \<Rightarrow> frame \<Rightarrow> server" where
  "onMessage_esm now s ws data =
     (case query (socks s ws) of
        None \<Rightarrow> s
      | Some q \<Rightarrow>
         (case data of
            Unparsable \<Rightarrow> send s ws (ErrorPayload ''Server error'')
          | Payload message \<Rightarrow>
              if missingFields message then
                send s ws (ErrorPayload ''Invalid message format'')
              else if invalidIds message then
                send s ws (ErrorPayload ''Invalid message IDs'')
              else
                persistAndRoute s ws q message (timestampOrNow message now) None))"

section \<open>The windowed draft\<close>

text \<open>\<^verbatim>\<open>Message.findOne({ gigId, userId, text, timestamp: { $gte: since } })\<close>. The store casts
  the two identifier strings of the filter to identifiers before it compares them.\<close>

definition findOne_windowed :: "storedMessage list \<Rightarrow> string \<Rightarrow> string \<Rightarrow> string \<Rightarrow> int \<Rightarrow>
    storedMessage option" where
  "findOne_windowed docs gigId senderId text since =
     find (\<lambda>d. d_gigId d = createFromHexString gigId \<and>
               d_userId d = createFromHexString senderId \<and>
               d_text d = text \<and> since \<le> d_timestamp d) docs"

text \<open>The message handler of the windowed draft. Without a timestamp,
  \<^verbatim>\<open>new Date(message.timestamp - 5000)\<close> is an invalid date and the query throws.\<close>

definition onMessage_windowed :: "server \<Rightarrow> nat \<Rightarrow> frame \<Rightarrow> server" where
  "onMessage_windowed s ws data =
     (case query (socks s ws) of
        None \<Rightarrow> s
      | Some q \<Rightarrow>
         (case data of
            Unparsable \<Rightarrow> send s ws (ErrorPayload ''Server error'')
          | Payload message \<Rightarrow>
              if missingFields message then
                send s ws (ErrorPayload ''Invalid message format'')
              else if invalidIds message then
                send s ws (ErrorPayload ''Invalid message IDs'')
              else
                (case m_timestamp message of
                   None \<Rightarrow> send s ws (ErrorPayload ''Server error'')
                 | Some t \<Rightarrow>
                     if \<not> validDate (t - 5000) then send s ws (ErrorPayload ''Server error'')
                     else
                       (case findOne_windowed (messages s) (the (m_gigId message))
                               (the (m_senderId message)) (the (m_text message)) (t - 5000) of
                          Some existingMessage \<Rightarrow>
                            send s ws (ErrorPayload ''Duplicate message detected'')
                        | None \<Rightarrow> persistAndRoute s ws q message t None))))"

section \<open>The registry draft\<close>

definition digitChar :: "nat \<Rightarrow> char" where
  "digitChar n = ''0123456789'' ! (n mod 10)"

fun showNat :: "nat \<Rightarrow> string" where
  "showNat n = (if n < 10 then [digitChar n] else showNat (n div 10) @ [digitChar n])"

declare showNat.simps [simp del]

text \<open>A number inside a template literal: its decimal digits. This is what JavaScript prints
  for an integer of at most 21 digits; a larger number is printed with an exponent, which is
  not modelled.\<close>

definition showInt :: "int \<Rightarrow> string" where
  "showInt i = (if i < 0 then CHR ''-'' # showNat (nat (- i)) else showNat (nat i))"

text \<open>\<^verbatim>\<open>message.messageId || `${message.senderId}:${message.timestamp || Date.now()}`\<close>\<close>

definition dedupKey :: "int \<Rightarrow> inboundMessage \<Rightarrow> string" where
  "dedupKey now message =
     (if truthy (m_messageId message) then the (m_messageId message)
      else the (m_senderId message) @ '':'' @ showInt (timestampOrNow message now))"

text \<open>\<^verbatim>\<open>Message.findOne({ messageId })\<close>: the first document that carries this
  \<^verbatim>\<open>messageId\<close>. No document that went through \<open>MessageSchema\<close> carries one, so that the lookup
  finds nothing in any collection that the handlers have filled (lemma
  \<open>registry_lookup_finds_nothing\<close> below).\<close>

definition findOne_messageId :: "storedMessage list \<Rightarrow> string \<Rightarrow> storedMessage option" where
  "findOne_messageId docs messageId = find (\<lambda>d. d_messageId d = Some messageId) docs"

text \<open>The message handler of the registry draft. \<^verbatim>\<open>Date.now()\<close> is read twice, for the key
  (\<open>nowKey\<close>) and for the stored timestamp (\<open>nowSave\<close>). A message whose key is found in the
  collection is dropped silently.\<close>

definition onMessage_registry :: "int \<Rightarrow> int \<Rightarrow> server \<Rightarrow> nat \<Rightarrow> frame \<Rightarrow> server" where
  "onMessage_registry nowKey nowSave s ws data =
     (case query (socks s ws) of
        None \<Rightarrow> s
      | Some q \<Rightarrow>
         (case data of
            Unparsable \<Rightarrow> send s ws (ErrorPayload ''Server error'')
          | Payload message \<Rightarrow>
              if missingFields message then
                send s ws
                  (ErrorPayload ''Invalid message format: Missing gigId, senderId, or text'')
              else if invalidIds message then
                send s ws (ErrorPayload ''Invalid message IDs'')
              else
                let messageId = dedupKey nowKey message in
                (case findOne_messageId (messages s) messageId of
                   Some existingMessage \<Rightarrow> s
                 | None \<Rightarrow>
                     persistAndRoute s ws q message (timestampOrNow message nowSave)
                       (Some messageId))))"

text \<open>\<^verbatim>\<open>Set.add\<close> on a Set kept in insertion order.\<close>

definition setAdd :: "nat list \<Rightarrow> nat \<Rightarrow> nat list" where
  "setAdd xs x = (if x \<in> set xs then xs else xs @ [x])"

text \<open>\<^verbatim>\<open>client.query.gigId\<close> of a member of a Set; every member was admitted, so its
  \<open>query\<close> is set (the invariant \<open>registry_inv\<close>, lemma \<open>inv_run\<close> below).\<close>

definition gigIdOf :: "socket \<Rightarrow> string option" where
  "gigIdOf client = map_option q_gigId (query client)"

definition userIdOf :: "socket \<Rightarrow> string option" where
  "userIdOf client = map_option q_userId (query client)"

text \<open>\<^verbatim>\<open>userConnections.forEach\<close> of the admission, over the members \<open>cs\<close> of the Set at
  address \<open>uc\<close>: an older socket of the same gig is closed and deleted from the Set.\<close>

fun evict :: "string \<Rightarrow> nat \<Rightarrow> nat \<Rightarrow> nat list \<Rightarrow> server \<Rightarrow> server" where
  "evict gigId ws uc [] s = s"
| "evict gigId ws uc (client # rest) s =
     evict gigId ws uc rest
       (if client \<noteq> ws \<and> gigIdOf (socks s client) = Some gigId then
          (close s client 1008 ''Duplicate connection'')
            \<lparr>buckets := (buckets s)(uc := removeAll client (buckets s uc))\<rparr>
        else s)"

text \<open>The connection handler of the registry draft.\<close>

definition onConnection_registry :: "server \<Rightarrow> handshake \<Rightarrow> server" where
  "onConnection_registry s0 h =
     (let ws = nextSock s0; s = accept s0 in
      if missingParams h then
        close (send s ws (ErrorPayload ''Missing required query parameters''))
          ws 1008 ''Missing gigId, sellerId, or userId''
      else if invalidParams h then
        close (send s ws (ErrorPayload ''Invalid gigId, sellerId, or userId''))
          ws 1008 ''Invalid gigId, sellerId, or userId''
      else
        let gigId = the (h_gigId h); sellerId = the (h_sellerId h); userId = the (h_userId h);
            s1 = (if map_of (activeConnections s) userId = None then
                    s\<lparr>activeConnections := activeConnections s @ [(userId, nextBucket s)],
                      buckets := (buckets s)(nextBucket s := []),
                      nextBucket := Suc (nextBucket s)\<rparr>
                  else s);
            uc = the (map_of (activeConnections s1) userId);
            s2 = s1\<lparr>socks := (socks s1)(ws := (socks s1 ws)\<lparr>
                      query := Some \<lparr>q_gigId = gigId, q_sellerId = sellerId, q_userId = userId\<rparr>,
                      userConnections := Some uc\<rparr>),
                    buckets := (buckets s1)(uc := setAdd (buckets s1 uc) ws)\<rparr>
        in if length (buckets s2 uc) > 1 then evict gigId ws uc (buckets s2 uc) s2 else s2)"

text \<open>A close event on socket \<open>ws\<close> in the registry draft: the library's part, then the close
  handler, which exists only on an admitted socket.\<close>

definition onClose_registry :: "server \<Rightarrow> nat \<Rightarrow> server" where
  "onClose_registry s0 ws =
     (let s = emitClose s0 ws in
      case (userConnections (socks s ws), query (socks s ws)) of
        (Some uc, Some q) \<Rightarrow>
          let s1 = s\<lparr>buckets := (buckets s)(uc := removeAll ws (buckets s uc))\<rparr>
          in if buckets s1 uc = [] then
               s1\<lparr>activeConnections :=
                    filter (\<lambda>e. fst e \<noteq> q_userId q) (activeConnections s1)\<rparr>
             else s1
      | _ \<Rightarrow> s)"

text \<open>The events of the registry draft: an upgrade request, a frame on a live socket (with the
  two readings of the clock), and the close of a live socket.\<close>

datatype event = Connect handshake | Message nat frame int int | Close nat

fun step_registry :: "server \<Rightarrow> event \<Rightarrow> server" where
  "step_registry s (Connect h) = onConnection_registry s h"
| "step_registry s (Message ws data nowKey nowSave) =
     (if ws \<in> set (clients s) then onMessage_registry nowKey nowSave s ws data else s)"
| "step_registry s (Close ws) =
     (if ws \<in> set (clients s) then onClose_registry s ws else s)"

definition run_registry :: "server \<Rightarrow> event list \<Rightarrow> server" where
  "run_registry s evs = foldl step_registry s evs"

text \<open>The sockets that the registry holds, bucket by bucket, and the pair
  \<open>(userId, gigId)\<close> of a socket.\<close>

definition registered :: "server \<Rightarrow> nat list" where
  "registered s = concat (map (\<lambda>e. buckets s (snd e)) (activeConnections s))"

definition pairOf :: "server \<Rightarrow> nat \<Rightarrow> (string option \<times> string option)" where
  "pairOf s c = (userIdOf (socks s c), gigIdOf (socks s c))"

text \<open>The audience of a message sent on a connection with parameters \<open>q\<close>: the clients that
  pass the test of the broadcast loop.\<close>

definition audience :: "server \<Rightarrow> query \<Rightarrow> nat list" where
  "audience s q = filter (\<lambda>c. eligible q (socks s c)) (clients s)"

text \<open>An admitted connection: a live client whose parameters were accepted and whose
  transport is open.\<close>

definition admitted :: "server \<Rightarrow> nat \<Rightarrow> bool" where
  "admitted s c \<longleftrightarrow> c \<in> set (clients s) \<and> query (socks s c) \<noteq> None \<and>
     readyState (socks s c) = OPEN"

text \<open>The messages delivered to a socket: the message payloads among what was sent on it.\<close>

fun delivered :: "payload list \<Rightarrow> populatedMessage list" where
  "delivered [] = []"
| "delivered (ErrorPayload e # ps) = delivered ps"
| "delivered (MessagePayload m # ps) = m # delivered ps"

section \<open>Example data\<close>

definition gigG :: string where "gigG = ''aaaaaaaaaaaaaaaaaaaaaaaa''"
definition gigH :: string where "gigH = ''dddddddddddddddddddddddd''"
definition userS :: string where "userS = ''bbbbbbbbbbbbbbbbbbbbbbbb''"
definition userU :: string where "userU = ''cccccccccccccccccccccccc''"

definition handshakeOf :: "string \<Rightarrow> string \<Rightarrow> string \<Rightarrow> handshake" where
  "handshakeOf g sl u = \<lparr>h_gigId = Some g, h_sellerId = Some sl, h_userId = Some u\<rparr>"

definition chat :: "string \<Rightarrow> string \<Rightarrow> string \<Rightarrow> int option \<Rightarrow> inboundMessage" where
  "chat g u t ts = \<lparr>m_gigId = Some g, m_senderId = Some u, m_text = Some t,
     m_recipientId = None, m_timestamp = ts, m_messageId = None\<rparr>"

text \<open>Three clients of the ESM and the windowed draft: socket 0 is the seller and socket 1 the
  buyer of gig \<open>gigG\<close>, socket 2 is the buyer in another gig.\<close>

definition threeClients :: server where
  "threeClients =
     onConnection (onConnection (onConnection (init (\<lambda>_. None))
       (handshakeOf gigG userS userS)) (handshakeOf gigG userS userU))
       (handshakeOf gigH userS userU)"

text \<open>The same three clients, admitted by the registry draft.\<close>

definition threeRegistered :: server where
  "threeRegistered = run_registry (init (\<lambda>_. None))
     [Connect (handshakeOf gigG userS userS), Connect (handshakeOf gigG userS userU),
      Connect (handshakeOf gigH userS userU)]"

text \<open>A run of the registry draft in which the close event of a superseded socket arrives
  late. Sockets 0 and 1 connect for the same user and gig, so that socket 0 is superseded;
  socket 1 closes; socket 2 connects; only then the close event of socket 0 arrives; socket 3
  connects. All four handshakes are the same.\<close>

definition staleCloseRun :: "event list" where
  "staleCloseRun =
     [Connect (handshakeOf gigG userS userU), Connect (handshakeOf gigG userS userU), Close 1,
      Connect (handshakeOf gigG userS userU), Close 0, Connect (handshakeOf gigG userS userU)]"

definition staleCloseState :: server where
  "staleCloseState = run_registry (init (\<lambda>_. None)) staleCloseRun"

section \<open>The invariant of the registry\<close>

text \<open>
  What every state of the registry draft satisfies: each entry of the Map points to an
  allocated, non-empty Set whose members are sockets of the entry's user; a member of a Set is
  an allocated socket whose close handler closes over that very Set; a socket with a close
  handler has its \<open>query\<close>; and every client is an allocated socket.
\<close>

definition registry_inv :: "server \<Rightarrow> bool" where
  "registry_inv s \<longleftrightarrow>
     (\<forall>e \<in> set (activeConnections s).
        snd e < nextBucket s \<and> buckets s (snd e) \<noteq> [] \<and>
        (\<forall>c \<in> set (buckets s (snd e)). userIdOf (socks s c) = Some (fst e))) \<and>
     (\<forall>a. \<forall>c \<in> set (buckets s a). c < nextSock s \<and> userConnections (socks s c) = Some a) \<and>
     (\<forall>c a. userConnections (socks s c) = Some a \<longrightarrow> query (socks s c) \<noteq> None) \<and>
     (\<forall>c \<in> set (clients s). c < nextSock s)"

text \<open>A socket that has left the server: it was allocated, and it is neither a client nor a
  member of any Set.\<close>

definition gone :: "server \<Rightarrow> nat \<Rightarrow> bool" where
  "gone s c \<longleftrightarrow> c < nextSock s \<and> c \<notin> set (clients s) \<and> (\<forall>a. c \<notin> set (buckets s a))"

text \<open>The two steps of an admission before the older sockets are closed, named for the
  proofs: \<^verbatim>\<open>activeConnections.set(userId, new Set())\<close>, and the assignment of \<^verbatim>\<open>ws.query\<close>
  with \<^verbatim>\<open>userConnections.add(ws)\<close>.\<close>

definition newBucket :: "server \<Rightarrow> string \<Rightarrow> server" where
  "newBucket s userId =
     s\<lparr>activeConnections := activeConnections s @ [(userId, nextBucket s)],
       buckets := (buckets s)(nextBucket s := []),
       nextBucket := Suc (nextBucket s)\<rparr>"

definition registerIn :: "server \<Rightarrow> nat \<Rightarrow> query \<Rightarrow> nat \<Rightarrow> server" where
  "registerIn s ws q uc =
     s\<lparr>socks := (socks s)(ws := (socks s ws)\<lparr>query := Some q, userConnections := Some uc\<rparr>),
       buckets := (buckets s)(uc := setAdd (buckets s uc) ws)\<rparr>"

section \<open>Basic facts about sending and routing\<close>

lemma send_fields [simp]:
  "clients (send s c p) = clients s"
  "messages (send s c p) = messages s"
  "profiles (send s c p) = profiles s"
  "activeConnections (send s c p) = activeConnections s"
  "buckets (send s c p) = buckets s"
  "nextSock (send s c p) = nextSock s"
  "nextBucket (send s c p) = nextBucket s"
  by (simp_all add: send_def)

lemma send_socks [simp]:
  "socks (send s c p) c' =
     (if c' = c then (socks s c)\<lparr>outbox := outbox (socks s c) @ [p]\<rparr> else socks s c')"
  by (simp add: send_def)

lemma close_fields [simp]:
  "clients (close s c code r) = clients s"
  "messages (close s c code r) = messages s"
  "profiles (close s c code r) = profiles s"
  "activeConnections (close s c code r) = activeConnections s"
  "buckets (close s c code r) = buckets s"
  "nextSock (close s c code r) = nextSock s"
  "nextBucket (close s c code r) = nextBucket s"
  by (simp_all add: close_def)

lemma close_socks [simp]:
  "socks (close s c code r) c' =
     (if c' = c then (socks s c)\<lparr>
        readyState := (if readyState (socks s c) = OPEN then CLOSING else readyState (socks s c)),
        closeCalls := closeCalls (socks s c) @ [(code, r)]\<rparr>
      else socks s c')"
  by (simp add: close_def)

lemma delivered_append [simp]: "delivered (xs @ ys) = delivered xs @ delivered ys"
  by (induction xs rule: delivered.induct) simp_all

lemma eligible_outbox [simp]: "eligible q (sock\<lparr>outbox := ob\<rparr>) = eligible q sock"
  by (simp add: eligible_def)

lemma broadcast_fields [simp]:
  "clients (broadcast q p cs s) = clients s"
  "messages (broadcast q p cs s) = messages s"
  "profiles (broadcast q p cs s) = profiles s"
  "activeConnections (broadcast q p cs s) = activeConnections s"
  "buckets (broadcast q p cs s) = buckets s"
  "nextSock (broadcast q p cs s) = nextSock s"
  "nextBucket (broadcast q p cs s) = nextBucket s"
  by (induction cs arbitrary: s; simp)+

text \<open>What the broadcast loop does to one socket: it appends the payload once for each
  occurrence of the socket among the clients, when the socket passes the test.\<close>

lemma broadcast_socks:
  "socks (broadcast q p cs s) c =
     (socks s c)\<lparr>outbox := outbox (socks s c) @
        replicate (if eligible q (socks s c) then count_list cs c else 0) p\<rparr>"
proof (induction cs arbitrary: s)
  case Nil
  then show ?case by simp
next
  case (Cons a cs)
  then show ?case by (simp add: replicate_append_same)
qed

lemmas example_defs = gigG_def gigH_def userS_def userU_def handshakeOf_def chat_def

lemmas eval_defs = onConnection_def init_def accept_def missingParams_def invalidParams_def
  truthy_def ObjectId_isValid_def isHexDigit_def newSocket_def close_def send_def

lemma threeClients_admitted:
  "admitted threeClients 0" "admitted threeClients 1" "admitted threeClients 2"
  by (simp_all add: admitted_def threeClients_def eval_defs example_defs)

lemma threeClients_fields:
  "messages threeClients = []" "clients threeClients = [0, 1, 2]"
  by (simp_all add: threeClients_def eval_defs example_defs)

section \<open>Rejected messages (ESM draft)\<close>

lemma esm_reject_format:
  assumes "query (socks s ws) \<noteq> None" and "missingFields message"
  shows "onMessage_esm now s ws (Payload message) =
           send s ws (ErrorPayload ''Invalid message format'')"
  using assms by (auto simp: onMessage_esm_def)

lemma esm_reject_ids:
  assumes "query (socks s ws) \<noteq> None" and "\<not> missingFields message" and "invalidIds message"
  shows "onMessage_esm now s ws (Payload message) =
           send s ws (ErrorPayload ''Invalid message IDs'')"
  using assms by (auto simp: onMessage_esm_def)

text \<open>
  Claim C6. On an admitted connection of the ESM draft, a message without a \<open>text\<close> field is
  answered with the error payload \<open>Invalid message format\<close> on the same socket and has no other
  effect: no message is stored, nothing is delivered to any socket, every other socket is
  unchanged, and the connection stays admitted.
\<close>

theorem esm_missing_text_rejected:
  assumes "admitted s ws" and "m_text message = None"
  shows "onMessage_esm now s ws (Payload message) =
           send s ws (ErrorPayload ''Invalid message format'')
    \<and> messages (onMessage_esm now s ws (Payload message)) = messages s
    \<and> clients (onMessage_esm now s ws (Payload message)) = clients s
    \<and> (\<forall>c. delivered (outbox (socks (onMessage_esm now s ws (Payload message)) c)) =
            delivered (outbox (socks s c)))
    \<and> (\<forall>c. c \<noteq> ws \<longrightarrow> socks (onMessage_esm now s ws (Payload message)) c = socks s c)
    \<and> outbox (socks (onMessage_esm now s ws (Payload message)) ws) =
        outbox (socks s ws) @ [ErrorPayload ''Invalid message format'']
    \<and> admitted (onMessage_esm now s ws (Payload message)) ws"
proof -
  have q: "query (socks s ws) \<noteq> None"
    using assms(1) by (simp add: admitted_def)
  have "missingFields message"
    using assms(2) by (simp add: missingFields_def truthy_def)
  with q have e: "onMessage_esm now s ws (Payload message) =
      send s ws (ErrorPayload ''Invalid message format'')"
    by (rule esm_reject_format)
  show ?thesis
    unfolding e using assms(1) by (simp add: admitted_def)
qed

theorem esm_missing_text_rejected_witness:
  "admitted threeClients 1 \<and>
   onMessage_esm 5 threeClients 1 (Payload ((chat gigG userU ''hi'' None)\<lparr>m_text := None\<rparr>)) =
     send threeClients 1 (ErrorPayload ''Invalid message format'') \<and>
   messages (onMessage_esm 5 threeClients 1
     (Payload ((chat gigG userU ''hi'' None)\<lparr>m_text := None\<rparr>))) = []"
  using esm_missing_text_rejected
      [of threeClients 1 "(chat gigG userU ''hi'' None)\<lparr>m_text := None\<rparr>" 5]
    threeClients_admitted(2) threeClients_fields(1)
  by (simp add: chat_def)

text \<open>
  Claim C7. On an admitted connection of the ESM draft, a message whose \<open>gigId\<close> is not a valid
  identifier is answered with an error payload on the same socket, and no message is stored and
  nothing is delivered, whatever its other fields are; when no required field is missing, the
  error is \<open>Invalid message IDs\<close>.
\<close>

theorem esm_invalid_gigId_rejected:
  assumes "admitted s ws"
    and "\<not> (\<exists>g. m_gigId message = Some g \<and> ObjectId_isValid g)"
  shows "onMessage_esm now s ws (Payload message) =
           send s ws (ErrorPayload (if missingFields message then ''Invalid message format''
                                    else ''Invalid message IDs''))
    \<and> messages (onMessage_esm now s ws (Payload message)) = messages s
    \<and> (\<forall>c. delivered (outbox (socks (onMessage_esm now s ws (Payload message)) c)) =
            delivered (outbox (socks s c)))"
proof -
  have q: "query (socks s ws) \<noteq> None"
    using assms(1) by (simp add: admitted_def)
  show ?thesis
  proof (cases "missingFields message")
    case True
    with q have "onMessage_esm now s ws (Payload message) =
        send s ws (ErrorPayload ''Invalid message format'')"
      by (rule esm_reject_format)
    with True show ?thesis by simp
  next
    case False
    then obtain g where "m_gigId message = Some g"
      by (auto simp: missingFields_def truthy_def split: option.splits)
    with assms(2) have "invalidIds message"
      by (simp add: invalidIds_def)
    with q False have "onMessage_esm now s ws (Payload message) =
        send s ws (ErrorPayload ''Invalid message IDs'')"
      by (rule esm_reject_ids)
    with False show ?thesis by simp
  qed
qed

theorem esm_invalid_gigId_rejected_witness:
  "admitted threeClients 1 \<and>
   \<not> (\<exists>g. m_gigId (chat ''not-an-id'' userU ''hi'' (Some 5)) = Some g \<and> ObjectId_isValid g) \<and>
   ObjectId_isValid userU \<and>
   onMessage_esm 9 threeClients 1 (Payload (chat ''not-an-id'' userU ''hi'' (Some 5))) =
     send threeClients 1 (ErrorPayload ''Invalid message IDs'') \<and>
   messages (onMessage_esm 9 threeClients 1 (Payload (chat ''not-an-id'' userU ''hi'' (Some 5))))
     = []"
proof -
  have h: "\<not> (\<exists>g. m_gigId (chat ''not-an-id'' userU ''hi'' (Some 5)) = Some g \<and>
      ObjectId_isValid g)"
    by (simp add: chat_def ObjectId_isValid_def)
  have m: "\<not> missingFields (chat ''not-an-id'' userU ''hi'' (Some 5))"
    by (simp add: missingFields_def chat_def truthy_def userU_def)
  have v: "ObjectId_isValid userU"
    by (simp add: ObjectId_isValid_def userU_def isHexDigit_def)
  have i: "messages threeClients = []"
    by (rule threeClients_fields)
  show ?thesis
    using esm_invalid_gigId_rejected [OF threeClients_admitted(2) h, of 9] h m v i
      threeClients_admitted(2)
    by simp
qed

section \<open>Rejected handshakes (registry draft)\<close>

lemma accept_fields [simp]:
  "clients (accept s) = clients s @ [nextSock s]"
  "messages (accept s) = messages s"
  "profiles (accept s) = profiles s"
  "activeConnections (accept s) = activeConnections s"
  "buckets (accept s) = buckets s"
  "nextSock (accept s) = Suc (nextSock s)"
  "nextBucket (accept s) = nextBucket s"
  "socks (accept s) c = (if c = nextSock s then newSocket else socks s c)"
  by (simp_all add: accept_def)

lemma registry_reject:
  assumes "missingParams h \<or> invalidParams h"
  shows "onConnection_registry s h =
     close (send (accept s) (nextSock s)
         (ErrorPayload (if missingParams h then ''Missing required query parameters''
                        else ''Invalid gigId, sellerId, or userId'')))
       (nextSock s) 1008
       (if missingParams h then ''Missing gigId, sellerId, or userId''
        else ''Invalid gigId, sellerId, or userId'')"
proof (cases "missingParams h")
  case True
  then show ?thesis by (simp add: onConnection_registry_def Let_def)
next
  case False
  with assms have "invalidParams h" by simp
  with False show ?thesis by (simp add: onConnection_registry_def Let_def)
qed

lemma bad_handshake:
  assumes "\<not> (\<exists>g sl u. h_gigId h = Some g \<and> h_sellerId h = Some sl \<and> h_userId h = Some u \<and>
              ObjectId_isValid g \<and> ObjectId_isValid sl \<and> ObjectId_isValid u)"
  shows "missingParams h \<or> invalidParams h"
proof (cases "missingParams h")
  case True
  then show ?thesis by simp
next
  case False
  then obtain g sl u where "h_gigId h = Some g" "h_sellerId h = Some sl" "h_userId h = Some u"
    unfolding missingParams_def truthy_def
    by (cases "h_gigId h"; cases "h_sellerId h"; cases "h_userId h"; simp)
  with assms show ?thesis by (simp add: invalidParams_def)
qed

text \<open>
  Claim C4. In the registry draft, when the handshake does not carry a \<open>gigId\<close>, a \<open>sellerId\<close>
  and a \<open>userId\<close> that are all present and valid identifiers, the new socket is sent exactly one
  error payload, is closed with code 1008 (it goes from open to closing), gets no \<open>query\<close> and no
  close handler, and the registry is left as it was: the Map, every Set and the list of
  registered sockets are unchanged.
\<close>

theorem registry_rejects_bad_handshake:
  assumes "\<not> (\<exists>g sl u. h_gigId h = Some g \<and> h_sellerId h = Some sl \<and> h_userId h = Some u \<and>
              ObjectId_isValid g \<and> ObjectId_isValid sl \<and> ObjectId_isValid u)"
  shows "\<exists>reason why.
      outbox (socks (onConnection_registry s h) (nextSock s)) = [ErrorPayload reason]
    \<and> closeCalls (socks (onConnection_registry s h) (nextSock s)) = [(1008, why)]
    \<and> readyState (socks (onConnection_registry s h) (nextSock s)) = CLOSING
    \<and> query (socks (onConnection_registry s h) (nextSock s)) = None
    \<and> userConnections (socks (onConnection_registry s h) (nextSock s)) = None
    \<and> activeConnections (onConnection_registry s h) = activeConnections s
    \<and> buckets (onConnection_registry s h) = buckets s
    \<and> nextBucket (onConnection_registry s h) = nextBucket s
    \<and> registered (onConnection_registry s h) = registered s"
proof -
  have "missingParams h \<or> invalidParams h"
    using assms by (rule bad_handshake)
  then have e: "onConnection_registry s h =
     close (send (accept s) (nextSock s)
         (ErrorPayload (if missingParams h then ''Missing required query parameters''
                        else ''Invalid gigId, sellerId, or userId'')))
       (nextSock s) 1008
       (if missingParams h then ''Missing gigId, sellerId, or userId''
        else ''Invalid gigId, sellerId, or userId'')"
    by (rule registry_reject)
  show ?thesis
    unfolding e by (simp add: newSocket_def registered_def)
qed

theorem registry_rejects_bad_handshake_witness:
  "\<not> (\<exists>g sl u. h_gigId (handshakeOf gigG ''xyz'' userU) = Some g \<and>
        h_sellerId (handshakeOf gigG ''xyz'' userU) = Some sl \<and>
        h_userId (handshakeOf gigG ''xyz'' userU) = Some u \<and>
        ObjectId_isValid g \<and> ObjectId_isValid sl \<and> ObjectId_isValid u) \<and>
   activeConnections (onConnection_registry (init (\<lambda>_. None)) (handshakeOf gigG ''xyz'' userU))
     = [] \<and>
   closeCalls (socks (onConnection_registry (init (\<lambda>_. None))
       (handshakeOf gigG ''xyz'' userU)) 0) = [(1008, ''Invalid gigId, sellerId, or userId'')] \<and>
   outbox (socks (onConnection_registry (init (\<lambda>_. None))
       (handshakeOf gigG ''xyz'' userU)) 0) = [ErrorPayload ''Invalid gigId, sellerId, or userId'']"
proof -
  have h: "\<not> (\<exists>g sl u. h_gigId (handshakeOf gigG ''xyz'' userU) = Some g \<and>
        h_sellerId (handshakeOf gigG ''xyz'' userU) = Some sl \<and>
        h_userId (handshakeOf gigG ''xyz'' userU) = Some u \<and>
        ObjectId_isValid g \<and> ObjectId_isValid sl \<and> ObjectId_isValid u)"
    by (simp add: handshakeOf_def ObjectId_isValid_def)
  have i: "activeConnections (init (\<lambda>_. None)) = []"
    by (simp add: init_def)
  have c: "closeCalls (socks (onConnection_registry (init (\<lambda>_. None))
       (handshakeOf gigG ''xyz'' userU)) 0) = [(1008, ''Invalid gigId, sellerId, or userId'')]"
    "outbox (socks (onConnection_registry (init (\<lambda>_. None))
       (handshakeOf gigG ''xyz'' userU)) 0) = [ErrorPayload ''Invalid gigId, sellerId, or userId'']"
    by (simp_all add: onConnection_registry_def eval_defs example_defs)
  have a: "activeConnections (onConnection_registry (init (\<lambda>_. None))
      (handshakeOf gigG ''xyz'' userU)) = activeConnections (init (\<lambda>_. None))"
    using registry_rejects_bad_handshake [OF h, of "init (\<lambda>_. None)"]
    by (elim exE conjE)
  have a': "activeConnections (onConnection_registry (init (\<lambda>_. None))
      (handshakeOf gigG ''xyz'' userU)) = []"
    using a i by simp
  from h a' c show ?thesis
    by (intro conjI)
qed

section \<open>Persisting and routing an accepted message\<close>

lemma find_append:
  "find P (xs @ ys) = (case find P xs of None \<Rightarrow> find P ys | Some x \<Rightarrow> Some x)"
  by (induction xs) simp_all

lemma freshId_gt: "d \<in> set docs \<Longrightarrow> d_id d < freshId docs"
  by (induction docs) (auto simp: freshId_def)

lemma findById_new:
  assumes "d_id d = freshId docs"
  shows "findById (docs @ [d]) (freshId docs) = Some d"
proof -
  have "find (\<lambda>x. d_id x = freshId docs) docs = None"
    using freshId_gt [of _ docs] by (fastforce simp: find_None_iff)
  then show ?thesis
    using assms by (simp add: findById_def find_append)
qed

lemma newDocument_fields [simp]:
  "d_id (newDocument docs m ts mid) = freshId docs"
  "d_timestamp (newDocument docs m ts mid) = ts"
  "d_messageId (newDocument docs m ts mid) = None"
  "d_read (newDocument docs m ts mid) = None"
  "d_text (newDocument docs m ts mid) = the (m_text m)"
  "d_gigId (newDocument docs m ts mid) = createFromHexString (the (m_gigId m))"
  "d_userId (newDocument docs m ts mid) = createFromHexString (the (m_senderId m))"
  by (simp_all add: newDocument_def MessageSchema_def)

lemma persistAndRoute_invalid:
  "\<not> validDate ts \<Longrightarrow> persistAndRoute s ws q m ts mid = send s ws (ErrorPayload ''Server error'')"
  by (simp add: persistAndRoute_def)

lemma persistAndRoute_valid:
  assumes "validDate ts"
  shows "persistAndRoute s ws q m ts mid =
     broadcast q (MessagePayload (populate s (newDocument (messages s) m ts mid))) (clients s)
       (s\<lparr>messages := messages s @ [newDocument (messages s) m ts mid]\<rparr>)"
  using assms by (simp add: persistAndRoute_def Let_def findById_new populate_def)


lemma esm_accept:
  assumes "query (socks s ws) = Some q" "\<not> missingFields m" "\<not> invalidIds m"
  shows "onMessage_esm now s ws (Payload m) = persistAndRoute s ws q m (timestampOrNow m now) None"
  using assms by (simp add: onMessage_esm_def)

lemma esm_stored:
  assumes "messages (onMessage_esm now s ws data) \<noteq> messages s"
  shows "\<exists>q m. query (socks s ws) = Some q \<and> data = Payload m \<and> \<not> missingFields m \<and>
     \<not> invalidIds m \<and> validDate (timestampOrNow m now)"
proof (cases "query (socks s ws)")
  case None
  with assms show ?thesis by (simp add: onMessage_esm_def)
next
  case (Some q)
  show ?thesis
  proof (cases data)
    case Unparsable
    with assms Some show ?thesis by (simp add: onMessage_esm_def)
  next
    case (Payload m)
    have 1: "\<not> missingFields m"
      using assms Some Payload by (auto simp: onMessage_esm_def)
    have 2: "\<not> invalidIds m"
      using assms Some Payload 1 by (auto simp: onMessage_esm_def)
    have 3: "validDate (timestampOrNow m now)"
      using assms unfolding Payload esm_accept [OF Some 1 2]
      by - (rule ccontr, simp add: persistAndRoute_invalid)
    from Some Payload 1 2 3 show ?thesis by blast
  qed
qed

section \<open>The stored timestamp\<close>

lemma windowed_stored:
  assumes "messages (onMessage_windowed s ws data) \<noteq> messages s"
  shows "\<exists>q m t. query (socks s ws) = Some q \<and> data = Payload m \<and> \<not> missingFields m \<and>
     \<not> invalidIds m \<and> m_timestamp m = Some t \<and> validDate (t - 5000) \<and> validDate t \<and>
     findOne_windowed (messages s) (the (m_gigId m)) (the (m_senderId m)) (the (m_text m))
       (t - 5000) = None \<and>
     onMessage_windowed s ws data = persistAndRoute s ws q m t None"
proof (cases "query (socks s ws)")
  case None
  with assms show ?thesis by (simp add: onMessage_windowed_def)
next
  case (Some q)
  show ?thesis
  proof (cases data)
    case Unparsable
    with assms Some show ?thesis by (simp add: onMessage_windowed_def)
  next
    case (Payload m)
    have 1: "\<not> missingFields m"
      using assms Some Payload by (auto simp: onMessage_windowed_def)
    have 2: "\<not> invalidIds m"
      using assms Some Payload 1 by (auto simp: onMessage_windowed_def)
    obtain t where 3: "m_timestamp m = Some t"
      using assms Some Payload 1 2 by (cases "m_timestamp m") (auto simp: onMessage_windowed_def)
    have 4: "validDate (t - 5000)"
      using assms Some Payload 1 2 3
      by - (rule ccontr, simp add: onMessage_windowed_def)
    have 5: "findOne_windowed (messages s) (the (m_gigId m)) (the (m_senderId m)) (the (m_text m))
       (t - 5000) = None"
      using assms Some Payload 1 2 3 4 by (auto simp: onMessage_windowed_def split: option.splits)
    have 6: "onMessage_windowed s ws data = persistAndRoute s ws q m t None"
      using Some Payload 1 2 3 4 5 by (simp add: onMessage_windowed_def)
    have 7: "validDate t"
      using assms unfolding 6 by - (rule ccontr, simp add: persistAndRoute_invalid)
    from Some Payload 1 2 3 4 5 6 7 show ?thesis by blast
  qed
qed

lemma persistAndRoute_messages:
  "validDate ts \<Longrightarrow> messages (persistAndRoute s ws q m ts mid) =
     messages s @ [newDocument (messages s) m ts mid]"
  by (simp add: persistAndRoute_valid)

text \<open>
  Claim C8, as amended. When a handler stores a message, the stored timestamp is as follows.
  In the ESM draft it is the client's timestamp when that is present and not 0, and the
  server's clock otherwise (a timestamp 0 is falsy in \<^verbatim>\<open>message.timestamp || Date.now()\<close>).
  In the windowed draft a stored message always had a client timestamp, and the stored
  timestamp equals it.
\<close>

theorem stored_timestamp:
  "(messages (onMessage_esm now s ws (Payload m)) \<noteq> messages s \<longrightarrow>
      (\<exists>d. messages (onMessage_esm now s ws (Payload m)) = messages s @ [d] \<and>
           d_timestamp d = (case m_timestamp m of None \<Rightarrow> now
                            | Some t \<Rightarrow> if t = 0 then now else t)))
   \<and> (messages (onMessage_windowed s ws (Payload m)) \<noteq> messages s \<longrightarrow>
      (\<exists>d t. m_timestamp m = Some t \<and>
           messages (onMessage_windowed s ws (Payload m)) = messages s @ [d] \<and>
           d_timestamp d = t))"
proof (intro conjI impI)
  assume a: "messages (onMessage_esm now s ws (Payload m)) \<noteq> messages s"
  from esm_stored [OF a] obtain q where
    q: "query (socks s ws) = Some q" "\<not> missingFields m" "\<not> invalidIds m"
      "validDate (timestampOrNow m now)"
    by auto
  have "messages (onMessage_esm now s ws (Payload m)) =
      messages s @ [newDocument (messages s) m (timestampOrNow m now) None]"
    using q by (simp add: esm_accept persistAndRoute_messages)
  moreover have "timestampOrNow m now =
      (case m_timestamp m of None \<Rightarrow> now | Some t \<Rightarrow> if t = 0 then now else t)"
    by (simp add: timestampOrNow_def truthyNum_def split: option.splits)
  ultimately show "\<exists>d. messages (onMessage_esm now s ws (Payload m)) = messages s @ [d] \<and>
           d_timestamp d = (case m_timestamp m of None \<Rightarrow> now
                            | Some t \<Rightarrow> if t = 0 then now else t)"
    by simp
next
  assume a: "messages (onMessage_windowed s ws (Payload m)) \<noteq> messages s"
  from windowed_stored [OF a] obtain q t where
    q: "m_timestamp m = Some t" "validDate t"
      "onMessage_windowed s ws (Payload m) = persistAndRoute s ws q m t None"
    by auto
  have "messages (onMessage_windowed s ws (Payload m)) =
      messages s @ [newDocument (messages s) m t None]"
    using q by (simp add: persistAndRoute_messages)
  with q(1) show "\<exists>d t. m_timestamp m = Some t \<and>
           messages (onMessage_windowed s ws (Payload m)) = messages s @ [d] \<and>
           d_timestamp d = t"
    by simp
qed

lemma threeClients_query:
  "query (socks threeClients 0) = Some \<lparr>q_gigId = gigG, q_sellerId = userS, q_userId = userS\<rparr>"
  "query (socks threeClients 1) = Some \<lparr>q_gigId = gigG, q_sellerId = userS, q_userId = userU\<rparr>"
  "query (socks threeClients 2) = Some \<lparr>q_gigId = gigH, q_sellerId = userS, q_userId = userU\<rparr>"
  by (simp_all add: threeClients_def eval_defs example_defs)

lemma chat_ok:
  "\<not> missingFields (chat gigG userU ''hi'' ts)" "\<not> invalidIds (chat gigG userU ''hi'' ts)"
  by (simp_all add: missingFields_def invalidIds_def example_defs truthy_def ObjectId_isValid_def
      isHexDigit_def)

lemma esm_chat_messages:
  "validDate (timestampOrNow (chat gigG userU ''hi'' ts) now) \<Longrightarrow>
   messages (onMessage_esm now threeClients 1 (Payload (chat gigG userU ''hi'' ts))) =
     [newDocument [] (chat gigG userU ''hi'' ts) (timestampOrNow (chat gigG userU ''hi'' ts) now) None]"
  unfolding esm_accept [OF threeClients_query(2) chat_ok]
  by (simp add: persistAndRoute_messages threeClients_fields)

lemma windowed_accept:
  assumes "query (socks s ws) = Some q" "\<not> missingFields m" "\<not> invalidIds m"
    and "m_timestamp m = Some t" "validDate (t - 5000)"
    and "findOne_windowed (messages s) (the (m_gigId m)) (the (m_senderId m)) (the (m_text m))
       (t - 5000) = None"
  shows "onMessage_windowed s ws (Payload m) = persistAndRoute s ws q m t None"
  using assms by (simp add: onMessage_windowed_def)

lemma windowed_chat_messages:
  assumes "validDate (t - 5000)" "validDate t"
  shows "messages (onMessage_windowed threeClients 1 (Payload (chat gigG userU ''hi'' (Some t)))) =
     [newDocument [] (chat gigG userU ''hi'' (Some t)) t None]"
proof -
  have "onMessage_windowed threeClients 1 (Payload (chat gigG userU ''hi'' (Some t))) =
      persistAndRoute threeClients 1 \<lparr>q_gigId = gigG, q_sellerId = userS, q_userId = userU\<rparr>
        (chat gigG userU ''hi'' (Some t)) t None"
    using assms(1)
    by (intro windowed_accept threeClients_query chat_ok)
      (simp_all add: chat_def threeClients_fields findOne_windowed_def)
  then show ?thesis
    using assms(2) by (simp add: persistAndRoute_messages threeClients_fields)
qed

text \<open>Claim C8 as stated fails in the ESM draft: a client timestamp 0 is present, yet the
  stored timestamp is the server's clock.\<close>

theorem esm_zero_timestamp_counterexample:
  "m_timestamp (chat gigG userU ''hi'' (Some 0)) = Some 0 \<and>
   map d_timestamp (messages (onMessage_esm 1700000000000 threeClients 1
       (Payload (chat gigG userU ''hi'' (Some 0))))) = [1700000000000]"
proof -
  have t: "timestampOrNow (chat gigG userU ''hi'' (Some 0)) 1700000000000 = 1700000000000"
    by (simp add: timestampOrNow_def truthyNum_def chat_def)
  have "validDate (timestampOrNow (chat gigG userU ''hi'' (Some 0)) 1700000000000)"
    unfolding t by (simp add: validDate_def)
  from esm_chat_messages [OF this] show ?thesis
    by (simp add: t) (simp add: chat_def)
qed

theorem stored_timestamp_witness:
  "messages (onMessage_esm 1700000000000 threeClients 1 (Payload (chat gigG userU ''hi'' None)))
     \<noteq> messages threeClients \<and>
   map d_timestamp (messages (onMessage_esm 1700000000000 threeClients 1
     (Payload (chat gigG userU ''hi'' None)))) = [1700000000000] \<and>
   messages (onMessage_windowed threeClients 1 (Payload (chat gigG userU ''hi'' (Some 1000))))
     \<noteq> messages threeClients \<and>
   map d_timestamp (messages (onMessage_windowed threeClients 1
     (Payload (chat gigG userU ''hi'' (Some 1000))))) = [1000]"
proof -
  have t: "timestampOrNow (chat gigG userU ''hi'' None) 1700000000000 = 1700000000000"
    by (simp add: timestampOrNow_def truthyNum_def chat_def)
  have "validDate (timestampOrNow (chat gigG userU ''hi'' None) 1700000000000)"
    unfolding t by (simp add: validDate_def)
  from esm_chat_messages [OF this]
  have e: "messages (onMessage_esm 1700000000000 threeClients 1
      (Payload (chat gigG userU ''hi'' None))) \<noteq> messages threeClients"
    by (simp add: threeClients_fields)
  have "validDate (1000 - 5000)" "validDate 1000"
    by (simp_all add: validDate_def)
  from windowed_chat_messages [OF this]
  have w: "messages (onMessage_windowed threeClients 1
      (Payload (chat gigG userU ''hi'' (Some 1000)))) \<noteq> messages threeClients"
    by (simp add: threeClients_fields)
  from e stored_timestamp [of 1700000000000 threeClients 1 "chat gigG userU ''hi'' None"]
  obtain d where d: "messages (onMessage_esm 1700000000000 threeClients 1
      (Payload (chat gigG userU ''hi'' None))) = messages threeClients @ [d]"
      "d_timestamp d = (case m_timestamp (chat gigG userU ''hi'' None) of None \<Rightarrow> 1700000000000
         | Some t \<Rightarrow> if t = 0 then 1700000000000 else t)"
    by blast
  from w stored_timestamp [of 0 threeClients 1 "chat gigG userU ''hi'' (Some 1000)"]
  obtain d' t' where d': "m_timestamp (chat gigG userU ''hi'' (Some 1000)) = Some t'"
      "messages (onMessage_windowed threeClients 1
        (Payload (chat gigG userU ''hi'' (Some 1000)))) = messages threeClients @ [d']"
      "d_timestamp d' = t'"
    by blast
  have "d_timestamp d = 1700000000000"
    using d(2) by (simp add: chat_def)
  moreover have "d_timestamp d' = 1000"
    using d'(1,3) by (simp add: chat_def)
  ultimately show ?thesis
    using e w d(1) d'(2) by (simp add: threeClients_fields)
qed

section \<open>The audience of a message\<close>

lemma distinct_count:
  "distinct cs \<Longrightarrow> count_list cs c = (if c \<in> set cs then 1 else 0)"
  by (induction cs) auto

lemma audience_set: "c \<in> set (audience s q) \<longleftrightarrow> c \<in> set (clients s) \<and> eligible q (socks s c)"
  by (simp add: audience_def)

lemma persistAndRoute_socks:
  assumes "validDate ts" and "distinct (clients s)"
  shows "socks (persistAndRoute s ws q m ts mid) c =
     (socks s c)\<lparr>outbox := outbox (socks s c) @
        (if c \<in> set (audience s q)
         then [MessagePayload (populate s (newDocument (messages s) m ts mid))] else [])\<rparr>"
  using assms
  by (simp add: persistAndRoute_valid broadcast_socks distinct_count audience_set)

text \<open>
  Claim C9. In the ESM draft, when a message sent on a connection with handshake parameters
  \<open>q\<close> is accepted (a message is stored), the stored message carries the \<open>gigId\<close> of the
  message, and the payload is appended to the outbox of exactly the sockets in
  \<open>audience s q\<close>, which is computed from \<open>q\<close> and the sockets alone: neither the \<open>gigId\<close> nor
  the \<open>recipientId\<close> of the message takes part. Every other socket is unchanged.
\<close>

theorem esm_audience_from_handshake:
  assumes "query (socks s ws) = Some q" and "distinct (clients s)"
    and "messages (onMessage_esm now s ws (Payload m)) \<noteq> messages s"
  shows "\<exists>d. messages (onMessage_esm now s ws (Payload m)) = messages s @ [d]
    \<and> d_gigId d = createFromHexString (the (m_gigId m))
    \<and> (\<forall>c. socks (onMessage_esm now s ws (Payload m)) c =
          (socks s c)\<lparr>outbox := outbox (socks s c) @
             (if c \<in> set (audience s q) then [MessagePayload (populate s d)] else [])\<rparr>)"
proof -
  from esm_stored [OF assms(3)] assms(1) have
    ok: "\<not> missingFields m" "\<not> invalidIds m" "validDate (timestampOrNow m now)"
    by auto
  have e: "onMessage_esm now s ws (Payload m) =
      persistAndRoute s ws q m (timestampOrNow m now) None"
    using assms(1) ok(1,2) by (rule esm_accept)
  let ?d = "newDocument (messages s) m (timestampOrNow m now) None"
  have "messages (onMessage_esm now s ws (Payload m)) = messages s @ [?d]"
    unfolding e using ok(3) by (rule persistAndRoute_messages)
  moreover have "d_gigId ?d = createFromHexString (the (m_gigId m))"
    by simp
  moreover have "\<forall>c. socks (onMessage_esm now s ws (Payload m)) c =
          (socks s c)\<lparr>outbox := outbox (socks s c) @
             (if c \<in> set (audience s q) then [MessagePayload (populate s ?d)] else [])\<rparr>"
    unfolding e using persistAndRoute_socks [OF ok(3) assms(2)] by blast
  ultimately show ?thesis by blast
qed

lemma chat_other_ok:
  "\<not> missingFields (chat gigH userU ''hi'' ts)" "\<not> invalidIds (chat gigH userU ''hi'' ts)"
  by (simp_all add: missingFields_def invalidIds_def example_defs truthy_def ObjectId_isValid_def
      isHexDigit_def)

lemma threeClients_audience:
  "audience threeClients \<lparr>q_gigId = gigG, q_sellerId = userS, q_userId = userU\<rparr> = [0, 1]"
  by (simp add: audience_def eligible_def threeClients_def eval_defs example_defs)

theorem esm_audience_from_handshake_witness:
  "query (socks threeClients 1) = Some \<lparr>q_gigId = gigG, q_sellerId = userS, q_userId = userU\<rparr> \<and>
   distinct (clients threeClients) \<and>
   messages (onMessage_esm 7 threeClients 1 (Payload (chat gigH userU ''hi'' (Some 1000))))
     \<noteq> messages threeClients \<and>
   gigH \<noteq> gigG \<and>
   map d_gigId (messages (onMessage_esm 7 threeClients 1
     (Payload (chat gigH userU ''hi'' (Some 1000))))) = [gigH] \<and>
   length (outbox (socks (onMessage_esm 7 threeClients 1
     (Payload (chat gigH userU ''hi'' (Some 1000)))) 0)) = 1 \<and>
   length (outbox (socks (onMessage_esm 7 threeClients 1
     (Payload (chat gigH userU ''hi'' (Some 1000)))) 1)) = 1 \<and>
   outbox (socks (onMessage_esm 7 threeClients 1
     (Payload (chat gigH userU ''hi'' (Some 1000)))) 2) = []"
proof -
  let ?s' = "onMessage_esm 7 threeClients 1 (Payload (chat gigH userU ''hi'' (Some 1000)))"
  have t: "timestampOrNow (chat gigH userU ''hi'' (Some 1000)) 7 = 1000"
    by (simp add: timestampOrNow_def truthyNum_def chat_def)
  have v: "validDate (timestampOrNow (chat gigH userU ''hi'' (Some 1000)) 7)"
    unfolding t by (simp add: validDate_def)
  have a: "messages ?s' \<noteq> messages threeClients"
    unfolding esm_accept [OF threeClients_query(2) chat_other_ok]
    using v by (simp add: persistAndRoute_messages)
  have dc: "distinct (clients threeClients)"
    by (simp add: threeClients_fields)
  from esm_audience_from_handshake [OF threeClients_query(2) dc a]
  obtain d where d: "messages ?s' = messages threeClients @ [d]"
    "d_gigId d = createFromHexString (the (m_gigId (chat gigH userU ''hi'' (Some 1000))))"
    "\<And>c. socks ?s' c = (socks threeClients c)\<lparr>outbox := outbox (socks threeClients c) @
       (if c \<in> set (audience threeClients \<lparr>q_gigId = gigG, q_sellerId = userS, q_userId = userU\<rparr>)
        then [MessagePayload (populate threeClients d)] else [])\<rparr>"
    by blast
  have g: "d_gigId d = gigH"
    unfolding d(2) by (simp add: chat_def createFromHexString_def lowerHex_def gigH_def)
  have o: "outbox (socks threeClients 0) = []" "outbox (socks threeClients 1) = []"
    "outbox (socks threeClients 2) = []"
    by (simp_all add: threeClients_def eval_defs example_defs)
  have n: "gigH \<noteq> gigG"
    by (simp add: gigH_def gigG_def)
  have o0: "length (outbox (socks ?s' 0)) = 1"
    using d(3) [of 0] o by (simp add: threeClients_audience)
  have o1: "length (outbox (socks ?s' 1)) = 1"
    using d(3) [of 1] o by (simp add: threeClients_audience)
  have o2: "outbox (socks ?s' 2) = []"
    using d(3) [of 2] o by (simp add: threeClients_audience)
  have m: "map d_gigId (messages ?s') = [gigH]"
    using d(1) g by (simp add: threeClients_fields)
  from threeClients_query(2) dc a n m o0 o1 o2 show ?thesis
    by (intro conjI)
qed

section \<open>Delivery to the two parties\<close>

lemma registry_stored:
  assumes "messages (onMessage_registry nowKey nowSave s ws data) \<noteq> messages s"
  shows "\<exists>q m. query (socks s ws) = Some q \<and> data = Payload m \<and> \<not> missingFields m \<and>
     \<not> invalidIds m \<and> findOne_messageId (messages s) (dedupKey nowKey m) = None \<and>
     validDate (timestampOrNow m nowSave) \<and>
     onMessage_registry nowKey nowSave s ws data =
       persistAndRoute s ws q m (timestampOrNow m nowSave) (Some (dedupKey nowKey m))"
proof (cases "query (socks s ws)")
  case None
  with assms show ?thesis by (simp add: onMessage_registry_def)
next
  case (Some q)
  show ?thesis
  proof (cases data)
    case Unparsable
    with assms Some show ?thesis by (simp add: onMessage_registry_def)
  next
    case (Payload m)
    have 1: "\<not> missingFields m"
      using assms Some Payload by - (rule ccontr, simp add: onMessage_registry_def)
    have 2: "\<not> invalidIds m"
      using assms Some Payload 1 by - (rule ccontr, simp add: onMessage_registry_def)
    have 3: "findOne_messageId (messages s) (dedupKey nowKey m) = None"
      using assms Some Payload 1 2
      by (cases "findOne_messageId (messages s) (dedupKey nowKey m)")
        (simp_all add: onMessage_registry_def)
    have 4: "onMessage_registry nowKey nowSave s ws data =
       persistAndRoute s ws q m (timestampOrNow m nowSave) (Some (dedupKey nowKey m))"
      using Some Payload 1 2 3 by (simp add: onMessage_registry_def)
    have 5: "validDate (timestampOrNow m nowSave)"
      using assms unfolding 4 by - (rule ccontr, simp add: persistAndRoute_invalid)
    from Some Payload 1 2 3 4 5 show ?thesis by blast
  qed
qed

lemma route_parties:
  assumes "validDate ts" and "distinct (clients s)"
    and "admitted s a" and "admitted s b"
    and "query (socks s a) = Some qa" and "query (socks s b) = Some qb"
    and "q_gigId qb = q_gigId qa"
    and "q_userId qb = q_userId qa \<or> q_userId qb = q_sellerId qa"
  shows "outbox (socks (persistAndRoute s a qa m ts mid) a) = outbox (socks s a) @
        [MessagePayload (populate s (newDocument (messages s) m ts mid))]"
    and "outbox (socks (persistAndRoute s a qa m ts mid) b) = outbox (socks s b) @
        [MessagePayload (populate s (newDocument (messages s) m ts mid))]"
    and "\<forall>c qc. query (socks s c) = Some qc \<and>
          (q_gigId qc \<noteq> q_gigId qa \<or>
           (q_userId qc \<noteq> q_userId qa \<and> q_userId qc \<noteq> q_sellerId qa)) \<longrightarrow>
        socks (persistAndRoute s a qa m ts mid) c = socks s c"
proof -
  have "a \<in> set (audience s qa)"
    using assms(3,5) by (simp add: audience_set admitted_def eligible_def)
  then show "outbox (socks (persistAndRoute s a qa m ts mid) a) = outbox (socks s a) @
        [MessagePayload (populate s (newDocument (messages s) m ts mid))]"
    by (simp add: persistAndRoute_socks [OF assms(1,2)])
  have "b \<in> set (audience s qa)"
    using assms(4,6,7,8) by (auto simp: audience_set admitted_def eligible_def)
  then show "outbox (socks (persistAndRoute s a qa m ts mid) b) = outbox (socks s b) @
        [MessagePayload (populate s (newDocument (messages s) m ts mid))]"
    by (simp add: persistAndRoute_socks [OF assms(1,2)])
  show "\<forall>c qc. query (socks s c) = Some qc \<and>
          (q_gigId qc \<noteq> q_gigId qa \<or>
           (q_userId qc \<noteq> q_userId qa \<and> q_userId qc \<noteq> q_sellerId qa)) \<longrightarrow>
        socks (persistAndRoute s a qa m ts mid) c = socks s c"
    by (auto simp: persistAndRoute_socks [OF assms(1,2)] audience_set eligible_def)
qed

text \<open>
  Claim C1, as amended. Let \<open>a\<close> and \<open>b\<close> be admitted connections (live clients with accepted
  parameters and an open transport) of the same gig, where the user of \<open>b\<close> is the user or the
  seller named in the handshake of \<open>a\<close>. When a frame sent on \<open>a\<close> is accepted, that is, a message
  \<open>d\<close> is stored, then the payload of \<open>d\<close> with the sender's profile is sent once to \<open>a\<close> and once
  to \<open>b\<close>, and every connection that was admitted with another \<open>gigId\<close>, or whose user is neither
  the user nor the seller of the handshake of \<open>a\<close>, is left untouched. This holds in the ESM
  draft and in the registry draft. So the buyer's message reaches the seller, and a message
  sent on the seller's own connection reaches the connections of the seller only.
\<close>

theorem parties_receive:
  assumes "admitted s a" and "admitted s b" and "distinct (clients s)"
    and "query (socks s a) = Some qa" and "query (socks s b) = Some qb"
    and "q_gigId qb = q_gigId qa"
    and "q_userId qb = q_userId qa \<or> q_userId qb = q_sellerId qa"
  shows "(messages (onMessage_esm now s a data) \<noteq> messages s \<longrightarrow>
      (\<exists>d. messages (onMessage_esm now s a data) = messages s @ [d]
         \<and> outbox (socks (onMessage_esm now s a data) a) =
             outbox (socks s a) @ [MessagePayload (populate s d)]
         \<and> outbox (socks (onMessage_esm now s a data) b) =
             outbox (socks s b) @ [MessagePayload (populate s d)]
         \<and> (\<forall>c qc. query (socks s c) = Some qc \<and>
                 (q_gigId qc \<noteq> q_gigId qa \<or>
                  (q_userId qc \<noteq> q_userId qa \<and> q_userId qc \<noteq> q_sellerId qa)) \<longrightarrow>
               socks (onMessage_esm now s a data) c = socks s c)))
    \<and> (messages (onMessage_registry nowKey nowSave s a data) \<noteq> messages s \<longrightarrow>
      (\<exists>d. messages (onMessage_registry nowKey nowSave s a data) = messages s @ [d]
         \<and> outbox (socks (onMessage_registry nowKey nowSave s a data) a) =
             outbox (socks s a) @ [MessagePayload (populate s d)]
         \<and> outbox (socks (onMessage_registry nowKey nowSave s a data) b) =
             outbox (socks s b) @ [MessagePayload (populate s d)]
         \<and> (\<forall>c qc. query (socks s c) = Some qc \<and>
                 (q_gigId qc \<noteq> q_gigId qa \<or>
                  (q_userId qc \<noteq> q_userId qa \<and> q_userId qc \<noteq> q_sellerId qa)) \<longrightarrow>
               socks (onMessage_registry nowKey nowSave s a data) c = socks s c)))"
proof (intro conjI impI)
  assume acc: "messages (onMessage_esm now s a data) \<noteq> messages s"
  from esm_stored [OF acc] assms(4) obtain m where
    m: "data = Payload m" "\<not> missingFields m" "\<not> invalidIds m"
      "validDate (timestampOrNow m now)"
    by auto
  have e: "onMessage_esm now s a data = persistAndRoute s a qa m (timestampOrNow m now) None"
    unfolding m(1) using assms(4) m(2,3) by (rule esm_accept)
  note r = route_parties [OF m(4) assms(3,1,2,4,5,6,7), of m None]
  show "\<exists>d. messages (onMessage_esm now s a data) = messages s @ [d]
         \<and> outbox (socks (onMessage_esm now s a data) a) =
             outbox (socks s a) @ [MessagePayload (populate s d)]
         \<and> outbox (socks (onMessage_esm now s a data) b) =
             outbox (socks s b) @ [MessagePayload (populate s d)]
         \<and> (\<forall>c qc. query (socks s c) = Some qc \<and>
                 (q_gigId qc \<noteq> q_gigId qa \<or>
                  (q_userId qc \<noteq> q_userId qa \<and> q_userId qc \<noteq> q_sellerId qa)) \<longrightarrow>
               socks (onMessage_esm now s a data) c = socks s c)"
    unfolding e using persistAndRoute_messages [OF m(4)] r by blast
next
  assume acc: "messages (onMessage_registry nowKey nowSave s a data) \<noteq> messages s"
  from registry_stored [OF acc] assms(4) obtain m where
    m: "validDate (timestampOrNow m nowSave)"
      "onMessage_registry nowKey nowSave s a data =
         persistAndRoute s a qa m (timestampOrNow m nowSave) (Some (dedupKey nowKey m))"
    by auto
  note r = route_parties [OF m(1) assms(3,1,2,4,5,6,7), of m "Some (dedupKey nowKey m)"]
  show "\<exists>d. messages (onMessage_registry nowKey nowSave s a data) = messages s @ [d]
         \<and> outbox (socks (onMessage_registry nowKey nowSave s a data) a) =
             outbox (socks s a) @ [MessagePayload (populate s d)]
         \<and> outbox (socks (onMessage_registry nowKey nowSave s a data) b) =
             outbox (socks s b) @ [MessagePayload (populate s d)]
         \<and> (\<forall>c qc. query (socks s c) = Some qc \<and>
                 (q_gigId qc \<noteq> q_gigId qa \<or>
                  (q_userId qc \<noteq> q_userId qa \<and> q_userId qc \<noteq> q_sellerId qa)) \<longrightarrow>
               socks (onMessage_registry nowKey nowSave s a data) c = socks s c)"
    unfolding m(2) using persistAndRoute_messages [OF m(1)] r by blast
qed

lemmas registry_eval_defs = run_registry_def onConnection_registry_def setAdd_def gigIdOf_def
  userIdOf_def onClose_registry_def emitClose_def registered_def

lemma threeRegistered_fields:
  "clients threeRegistered = [0, 1, 2]"
  "messages threeRegistered = []"
  "activeConnections threeRegistered = [(userS, 0), (userU, 1)]"
  "buckets threeRegistered 0 = [0]"
  "buckets threeRegistered 1 = [1, 2]"
  by (simp_all add: threeRegistered_def registry_eval_defs eval_defs example_defs Let_def)

lemma threeRegistered_socks:
  "socks threeRegistered 0 = \<lparr>query = Some \<lparr>q_gigId = gigG, q_sellerId = userS, q_userId = userS\<rparr>,
     readyState = OPEN, outbox = [], closeCalls = [], userConnections = Some 0\<rparr>"
  "socks threeRegistered 1 = \<lparr>query = Some \<lparr>q_gigId = gigG, q_sellerId = userS, q_userId = userU\<rparr>,
     readyState = OPEN, outbox = [], closeCalls = [], userConnections = Some 1\<rparr>"
  "socks threeRegistered 2 = \<lparr>query = Some \<lparr>q_gigId = gigH, q_sellerId = userS, q_userId = userU\<rparr>,
     readyState = OPEN, outbox = [], closeCalls = [], userConnections = Some 1\<rparr>"
  by (simp_all add: threeRegistered_def registry_eval_defs eval_defs example_defs Let_def)

lemma threeRegistered_admitted:
  "admitted threeRegistered 0" "admitted threeRegistered 1" "admitted threeRegistered 2"
  using threeRegistered_fields(1) threeRegistered_socks by (simp_all add: admitted_def)

theorem parties_receive_witness:
  "admitted threeClients 1 \<and> admitted threeClients 0 \<and> distinct (clients threeClients) \<and>
   messages (onMessage_esm 7 threeClients 1 (Payload (chat gigG userU ''hi'' (Some 1000))))
     \<noteq> messages threeClients \<and>
   length (outbox (socks (onMessage_esm 7 threeClients 1
     (Payload (chat gigG userU ''hi'' (Some 1000)))) 0)) = 1 \<and>
   length (outbox (socks (onMessage_esm 7 threeClients 1
     (Payload (chat gigG userU ''hi'' (Some 1000)))) 1)) = 1 \<and>
   outbox (socks (onMessage_esm 7 threeClients 1
     (Payload (chat gigG userU ''hi'' (Some 1000)))) 2) = [] \<and>
   admitted threeRegistered 1 \<and> admitted threeRegistered 0 \<and>
   distinct (clients threeRegistered) \<and>
   messages (onMessage_registry 7 8 threeRegistered 1
     (Payload (chat gigG userU ''hi'' (Some 1000)))) \<noteq> messages threeRegistered \<and>
   length (outbox (socks (onMessage_registry 7 8 threeRegistered 1
     (Payload (chat gigG userU ''hi'' (Some 1000)))) 0)) = 1 \<and>
   length (outbox (socks (onMessage_registry 7 8 threeRegistered 1
     (Payload (chat gigG userU ''hi'' (Some 1000)))) 1)) = 1 \<and>
   outbox (socks (onMessage_registry 7 8 threeRegistered 1
     (Payload (chat gigG userU ''hi'' (Some 1000)))) 2) = []"
proof -
  let ?m = "chat gigG userU ''hi'' (Some 1000)"
  let ?q = "\<lparr>q_gigId = gigG, q_sellerId = userS, q_userId = userU\<rparr>"
  let ?qs = "\<lparr>q_gigId = gigG, q_sellerId = userS, q_userId = userS\<rparr>"
  let ?e = "onMessage_esm 7 threeClients 1 (Payload ?m)"
  let ?r = "onMessage_registry 7 8 threeRegistered 1 (Payload ?m)"
  have t: "timestampOrNow ?m 7 = 1000" "timestampOrNow ?m 8 = 1000"
    by (simp_all add: timestampOrNow_def truthyNum_def chat_def)
  have v: "validDate (timestampOrNow ?m 7)" "validDate (timestampOrNow ?m 8)"
    unfolding t by (simp_all add: validDate_def)
  have ae: "messages ?e \<noteq> messages threeClients"
    unfolding esm_accept [OF threeClients_query(2) chat_ok]
    using v(1) by (simp add: persistAndRoute_messages)
  have qr: "query (socks threeRegistered 1) = Some ?q" "query (socks threeRegistered 0) = Some ?qs"
    "query (socks threeRegistered 2) = Some \<lparr>q_gigId = gigH, q_sellerId = userS, q_userId = userU\<rparr>"
    using threeRegistered_socks by simp_all
  have "onMessage_registry 7 8 threeRegistered 1 (Payload ?m) =
      persistAndRoute threeRegistered 1 ?q ?m (timestampOrNow ?m 8) (Some (dedupKey 7 ?m))"
    using qr(1) chat_ok [of "Some 1000"] threeRegistered_fields(2)
    by (simp add: onMessage_registry_def findOne_messageId_def)
  then have ar: "messages ?r \<noteq> messages threeRegistered"
    using v(2) by (simp add: persistAndRoute_messages)
  have dc: "distinct (clients threeClients)" "distinct (clients threeRegistered)"
    by (simp_all add: threeClients_fields threeRegistered_fields)
  have g: "gigH \<noteq> gigG" "q_gigId ?qs = q_gigId ?q"
    "q_userId ?qs = q_userId ?q \<or> q_userId ?qs = q_sellerId ?q"
    by (simp_all add: gigH_def gigG_def)
  have o: "outbox (socks threeClients 0) = []" "outbox (socks threeClients 1) = []"
    "outbox (socks threeClients 2) = []"
    by (simp_all add: threeClients_def eval_defs example_defs)
  from parties_receive [OF threeClients_admitted(2,1) dc(1) threeClients_query(2,1) g(2,3),
      of 7 "Payload ?m"] ae
  obtain d where d: "outbox (socks ?e 1) = outbox (socks threeClients 1) @
        [MessagePayload (populate threeClients d)]"
      "outbox (socks ?e 0) = outbox (socks threeClients 0) @
        [MessagePayload (populate threeClients d)]"
      "\<forall>c qc. query (socks threeClients c) = Some qc \<and>
         (q_gigId qc \<noteq> q_gigId ?q \<or>
          (q_userId qc \<noteq> q_userId ?q \<and> q_userId qc \<noteq> q_sellerId ?q)) \<longrightarrow>
         socks ?e c = socks threeClients c"
    by blast
  from d(3) threeClients_query(3) g(1) have "socks ?e 2 = socks threeClients 2"
    by simp
  with d(1,2) o have oe: "length (outbox (socks ?e 0)) = 1" "length (outbox (socks ?e 1)) = 1"
      "outbox (socks ?e 2) = []"
    by simp_all
  from parties_receive [OF threeRegistered_admitted(2,1) dc(2) qr(1,2) g(2,3),
      of _ "Payload ?m" 7 8] ar
  obtain d' where d': "outbox (socks ?r 1) = outbox (socks threeRegistered 1) @
        [MessagePayload (populate threeRegistered d')]"
      "outbox (socks ?r 0) = outbox (socks threeRegistered 0) @
        [MessagePayload (populate threeRegistered d')]"
      "\<forall>c qc. query (socks threeRegistered c) = Some qc \<and>
         (q_gigId qc \<noteq> q_gigId ?q \<or>
          (q_userId qc \<noteq> q_userId ?q \<and> q_userId qc \<noteq> q_sellerId ?q)) \<longrightarrow>
         socks ?r c = socks threeRegistered c"
    by blast
  from d'(3) qr(3) g(1) have "socks ?r 2 = socks threeRegistered 2"
    by simp
  with d'(1,2) threeRegistered_socks
  have or: "length (outbox (socks ?r 0)) = 1" "length (outbox (socks ?r 1)) = 1"
      "outbox (socks ?r 2) = []"
    by simp_all
  from threeClients_admitted(2,1) dc(1) ae oe threeRegistered_admitted(2,1) dc(2) ar or
  show ?thesis
    by (intro conjI)
qed

section \<open>Duplicate suppression by the lookback window\<close>

lemma windowed_duplicate:
  assumes "query (socks s ws) = Some q" "\<not> missingFields m" "\<not> invalidIds m"
    and "m_timestamp m = Some t" "validDate (t - 5000)"
    and "findOne_windowed (messages s) (the (m_gigId m)) (the (m_senderId m)) (the (m_text m))
       (t - 5000) \<noteq> None"
  shows "onMessage_windowed s ws (Payload m) =
     send s ws (ErrorPayload ''Duplicate message detected'')"
  using assms by (auto simp: onMessage_windowed_def)

lemma findOne_windowed_later:
  assumes "findOne_windowed docs g u txt since = None" and "since \<le> since'"
  shows "findOne_windowed docs g u txt since' = None"
  using assms by (fastforce simp: findOne_windowed_def find_None_iff)

lemma findOne_windowed_snoc:
  assumes "findOne_windowed docs g u txt since = None"
  shows "findOne_windowed (docs @ [d]) g u txt since =
     (if d_gigId d = createFromHexString g \<and> d_userId d = createFromHexString u \<and>
         d_text d = txt \<and> since \<le> d_timestamp d then Some d else None)"
  using assms by (simp add: findOne_windowed_def find_append)

lemma persistAndRoute_delivered:
  assumes "validDate ts" and "distinct (clients s)"
  shows "delivered (outbox (socks (persistAndRoute s ws q m ts mid) c)) =
     delivered (outbox (socks s c)) @
       (if c \<in> set (audience s q) then [populate s (newDocument (messages s) m ts mid)] else [])"
  by (simp add: persistAndRoute_socks [OF assms])

lemma persistAndRoute_fields:
  assumes "validDate ts"
  shows "clients (persistAndRoute s ws q m ts mid) = clients s"
    and "profiles (persistAndRoute s ws q m ts mid) = profiles s"
    and "query (socks (persistAndRoute s ws q m ts mid) c) = query (socks s c)"
    and "readyState (socks (persistAndRoute s ws q m ts mid) c) = readyState (socks s c)"
  using assms by (simp_all add: persistAndRoute_valid broadcast_socks)

lemma persistAndRoute_audience:
  assumes "validDate ts"
  shows "audience (persistAndRoute s ws q m ts mid) q' = audience s q'"
  using assms
  by (simp add: audience_def eligible_def persistAndRoute_fields cong: filter_cong)

lemma first_matches:
  assumes "m_gigId m2 = m_gigId m1" "m_senderId m2 = m_senderId m1" "m_text m2 = m_text m1"
    and "findOne_windowed docs (the (m_gigId m1)) (the (m_senderId m1)) (the (m_text m1))
       since = None"
  shows "findOne_windowed (docs @ [newDocument docs m1 t1 mid]) (the (m_gigId m2))
       (the (m_senderId m2)) (the (m_text m2)) since =
     (if since \<le> t1 then Some (newDocument docs m1 t1 mid) else None)"
  using assms(4) unfolding assms(1,2,3) by (simp add: findOne_windowed_snoc)


lemma find_snoc_hit: "P x \<Longrightarrow> find P (xs @ [x]) \<noteq> None"
  by (simp add: find_append split: option.splits)

lemma persistAndRoute_query:
  "query (socks (persistAndRoute s ws q m ts mid) c) = query (socks s c)"
  by (cases "validDate ts") (simp_all add: persistAndRoute_fields persistAndRoute_invalid)

lemma windowed_second_dup:
  assumes q: "query (socks s ws) = Some q"
    and same: "m_gigId m2 = m_gigId m1" "m_senderId m2 = m_senderId m1" "m_text m2 = m_text m1"
    and ok: "\<not> missingFields m1" "\<not> invalidIds m2"
    and ts: "m_timestamp m2 = Some t2"
    and vd: "validDate t1" "validDate (t2 - 5000)"
    and near: "t2 \<le> t1 + 5000"
  shows "onMessage_windowed (persistAndRoute s ws q m1 t1 None) ws (Payload m2) =
     send (persistAndRoute s ws q m1 t1 None) ws (ErrorPayload ''Duplicate message detected'')"
proof -
  let ?s1 = "persistAndRoute s ws q m1 t1 None"
  have q1: "query (socks ?s1 ws) = Some q"
    using q by (simp add: persistAndRoute_query)
  have miss2: "\<not> missingFields m2"
    using ok(1) same by (simp add: missingFields_def)
  have "findOne_windowed (messages ?s1) (the (m_gigId m2)) (the (m_senderId m2))
       (the (m_text m2)) (t2 - 5000) \<noteq> None"
    unfolding persistAndRoute_messages [OF vd(1)] findOne_windowed_def
    using same near by (simp add: find_snoc_hit)
  with q1 miss2 ok(2) ts vd(2) show ?thesis
    by (rule windowed_duplicate)
qed

lemma windowed_second_new:
  assumes q: "query (socks s ws) = Some q"
    and same: "m_gigId m2 = m_gigId m1" "m_senderId m2 = m_senderId m1" "m_text m2 = m_text m1"
    and ok: "\<not> missingFields m1" "\<not> invalidIds m2"
    and ts: "m_timestamp m2 = Some t2"
    and vd: "validDate t1" "validDate (t2 - 5000)"
    and fresh: "findOne_windowed (messages s) (the (m_gigId m1)) (the (m_senderId m1))
       (the (m_text m1)) (t1 - 5000) = None"
    and far: "t1 + 5000 < t2"
  shows "onMessage_windowed (persistAndRoute s ws q m1 t1 None) ws (Payload m2) =
     persistAndRoute (persistAndRoute s ws q m1 t1 None) ws q m2 t2 None"
proof -
  let ?s1 = "persistAndRoute s ws q m1 t1 None"
  have q1: "query (socks ?s1 ws) = Some q"
    using q by (simp add: persistAndRoute_query)
  have miss2: "\<not> missingFields m2"
    using ok(1) same by (simp add: missingFields_def)
  have "findOne_windowed (messages s) (the (m_gigId m1)) (the (m_senderId m1))
       (the (m_text m1)) (t2 - 5000) = None"
    using fresh by (rule findOne_windowed_later) (use far in simp)
  with same have "findOne_windowed (messages ?s1) (the (m_gigId m2)) (the (m_senderId m2))
       (the (m_text m2)) (t2 - 5000) =
     (if t2 - 5000 \<le> t1 then Some (newDocument (messages s) m1 t1 None) else None)"
    unfolding persistAndRoute_messages [OF vd(1)] by (rule first_matches)
  with far have "findOne_windowed (messages ?s1) (the (m_gigId m2)) (the (m_senderId m2))
       (the (m_text m2)) (t2 - 5000) = None"
    by simp
  with q1 miss2 ok(2) ts vd(2) show ?thesis
    by (rule windowed_accept)
qed

text \<open>
  Claim C3, as amended. In the windowed draft, let an admitted connection send a valid message
  with timestamp \<open>t1\<close> that has no stored match since \<open>t1 - 5000\<close>, and then a second message with
  the same \<open>gigId\<close>, \<open>senderId\<close> and \<open>text\<close> and timestamp \<open>t2\<close>. The first message is stored
  and delivered once to each socket of the audience, the sender included. When
  \<open>t2 \<le> t1 + 5000\<close>, the second message only produces the error payload
  \<open>Duplicate message detected\<close> on the sender's socket: one stored message and one delivery in
  all. When \<open>t2 > t1 + 5000\<close>, the second message is stored and delivered too: two stored
  messages and two deliveries to each socket of the audience.
\<close>

theorem windowed_dedup:
  assumes adm: "admitted s ws" and q: "query (socks s ws) = Some q"
    and dc: "distinct (clients s)"
    and same: "m_gigId m2 = m_gigId m1" "m_senderId m2 = m_senderId m1" "m_text m2 = m_text m1"
    and ok: "\<not> missingFields m1" "\<not> invalidIds m1" "\<not> invalidIds m2"
    and ts: "m_timestamp m1 = Some t1" "m_timestamp m2 = Some t2"
    and vd: "validDate t1" "validDate (t1 - 5000)" "validDate t2" "validDate (t2 - 5000)"
    and fresh: "findOne_windowed (messages s) (the (m_gigId m1)) (the (m_senderId m1))
       (the (m_text m1)) (t1 - 5000) = None"
    and s1: "s1 = onMessage_windowed s ws (Payload m1)"
    and s2: "s2 = onMessage_windowed s1 ws (Payload m2)"
    and d1: "d1 = newDocument (messages s) m1 t1 None"
    and d2: "d2 = newDocument (messages s @ [d1]) m2 t2 None"
  shows "ws \<in> set (audience s q)
    \<and> messages s1 = messages s @ [d1]
    \<and> (\<forall>c. delivered (outbox (socks s1 c)) = delivered (outbox (socks s c)) @
           (if c \<in> set (audience s q) then [populate s d1] else []))
    \<and> (t2 \<le> t1 + 5000 \<longrightarrow>
          s2 = send s1 ws (ErrorPayload ''Duplicate message detected'')
        \<and> messages s2 = messages s @ [d1]
        \<and> (\<forall>c. delivered (outbox (socks s2 c)) = delivered (outbox (socks s c)) @
             (if c \<in> set (audience s q) then [populate s d1] else [])))
    \<and> (t1 + 5000 < t2 \<longrightarrow>
          messages s2 = messages s @ [d1, d2]
        \<and> (\<forall>c. delivered (outbox (socks s2 c)) = delivered (outbox (socks s c)) @
             (if c \<in> set (audience s q) then [populate s d1, populate s d2] else [])))"
proof -
  have e1: "s1 = persistAndRoute s ws q m1 t1 None"
    unfolding s1 using q ok(1,2) ts(1) vd(2) fresh by (rule windowed_accept)
  have a: "ws \<in> set (audience s q)"
    using adm q by (simp add: audience_set admitted_def eligible_def)
  have m1: "messages s1 = messages s @ [d1]"
    unfolding e1 d1 using vd(1) by (rule persistAndRoute_messages)
  have del1: "delivered (outbox (socks s1 c)) = delivered (outbox (socks s c)) @
           (if c \<in> set (audience s q) then [populate s d1] else [])" for c
    unfolding e1 d1 using vd(1) dc by (rule persistAndRoute_delivered)
  have dup: "s2 = send s1 ws (ErrorPayload ''Duplicate message detected'')
        \<and> messages s2 = messages s @ [d1]
        \<and> (\<forall>c. delivered (outbox (socks s2 c)) = delivered (outbox (socks s c)) @
             (if c \<in> set (audience s q) then [populate s d1] else []))"
    if near: "t2 \<le> t1 + 5000"
  proof -
    have e2: "s2 = send s1 ws (ErrorPayload ''Duplicate message detected'')"
      unfolding s2 e1 using q same ok(1,3) ts(2) vd(1,4) near by (rule windowed_second_dup)
    show ?thesis
      unfolding e2 using m1 del1 by simp
  qed
  have new: "messages s2 = messages s @ [d1, d2]
        \<and> (\<forall>c. delivered (outbox (socks s2 c)) = delivered (outbox (socks s c)) @
             (if c \<in> set (audience s q) then [populate s d1, populate s d2] else []))"
    if far: "t1 + 5000 < t2"
  proof -
    have e2: "s2 = persistAndRoute s1 ws q m2 t2 None"
      unfolding s2 e1 using q same ok(1,3) ts(2) vd(1,4) fresh far
      by (rule windowed_second_new)
    have dc1: "distinct (clients s1)"
      unfolding e1 using dc by (simp add: persistAndRoute_fields [OF vd(1)])
    have a1: "audience s1 q = audience s q"
      unfolding e1 using vd(1) by (rule persistAndRoute_audience)
    have p1: "populate s1 (newDocument (messages s1) m2 t2 None) = populate s d2"
      unfolding m1 d2 by (simp add: populate_def e1 persistAndRoute_fields [OF vd(1)])
    have m2: "messages s2 = messages s @ [d1, d2]"
      unfolding e2 persistAndRoute_messages [OF vd(3)] m1 d2 by simp
    have "delivered (outbox (socks s2 c)) = delivered (outbox (socks s c)) @
             (if c \<in> set (audience s q) then [populate s d1, populate s d2] else [])" for c
      unfolding e2 persistAndRoute_delivered [OF vd(3) dc1] a1 p1 del1 by simp
    with m2 show ?thesis by simp
  qed
  from a m1 del1 dup new show ?thesis by simp
qed

lemma windowed_chat_first:
  assumes "validDate (t - 5000)"
  shows "onMessage_windowed threeClients 1 (Payload (chat gigG userU ''hi'' (Some t))) =
      persistAndRoute threeClients 1 \<lparr>q_gigId = gigG, q_sellerId = userS, q_userId = userU\<rparr>
        (chat gigG userU ''hi'' (Some t)) t None"
  using assms
  by (intro windowed_accept threeClients_query chat_ok)
    (simp_all add: chat_def threeClients_fields findOne_windowed_def)

text \<open>Claim C3 as stated fails: the timestamps 10000 and 1000 are more than 5000 ms apart,
  yet the second message is rejected as a duplicate and only one message is stored, because the
  lookback has a lower bound only.\<close>

theorem windowed_earlier_timestamp_counterexample:
  "5000 < \<bar>(1000::int) - 10000\<bar> \<and>
   length (messages (onMessage_windowed
     (onMessage_windowed threeClients 1 (Payload (chat gigG userU ''hi'' (Some 10000))))
     1 (Payload (chat gigG userU ''hi'' (Some 1000))))) = 1"
proof -
  let ?q = "\<lparr>q_gigId = gigG, q_sellerId = userS, q_userId = userU\<rparr>"
  let ?m1 = "chat gigG userU ''hi'' (Some 10000)"
  let ?m2 = "chat gigG userU ''hi'' (Some 1000)"
  have v: "validDate (10000 - 5000)" "validDate 10000" "validDate (1000 - 5000)"
    by (simp_all add: validDate_def)
  have e1: "onMessage_windowed threeClients 1 (Payload ?m1) =
      persistAndRoute threeClients 1 ?q ?m1 10000 None"
    using v(1) by (rule windowed_chat_first)
  have e2: "onMessage_windowed (persistAndRoute threeClients 1 ?q ?m1 10000 None) 1 (Payload ?m2) =
      send (persistAndRoute threeClients 1 ?q ?m1 10000 None) 1
        (ErrorPayload ''Duplicate message detected'')"
    using threeClients_query(2) _ _ _ chat_ok(1) chat_ok(2) _ v(2) v(3)
    by (rule windowed_second_dup) (simp_all add: chat_def)
  show ?thesis
    unfolding e1 e2 using v(2) by (simp add: persistAndRoute_messages threeClients_fields)
qed

theorem windowed_dedup_witness:
  "admitted threeClients 1 \<and>
   length (messages (onMessage_windowed
     (onMessage_windowed threeClients 1 (Payload (chat gigG userU ''hi'' (Some 1000))))
     1 (Payload (chat gigG userU ''hi'' (Some 3000))))) = 1 \<and>
   length (delivered (outbox (socks (onMessage_windowed
     (onMessage_windowed threeClients 1 (Payload (chat gigG userU ''hi'' (Some 1000))))
     1 (Payload (chat gigG userU ''hi'' (Some 3000)))) 1))) = 1 \<and>
   length (messages (onMessage_windowed
     (onMessage_windowed threeClients 1 (Payload (chat gigG userU ''hi'' (Some 1000))))
     1 (Payload (chat gigG userU ''hi'' (Some 10000))))) = 2 \<and>
   length (delivered (outbox (socks (onMessage_windowed
     (onMessage_windowed threeClients 1 (Payload (chat gigG userU ''hi'' (Some 1000))))
     1 (Payload (chat gigG userU ''hi'' (Some 10000)))) 1))) = 2"
proof -
  let ?q = "\<lparr>q_gigId = gigG, q_sellerId = userS, q_userId = userU\<rparr>"
  let ?m = "\<lambda>t. chat gigG userU ''hi'' (Some t)"
  let ?s1 = "onMessage_windowed threeClients 1 (Payload (?m 1000))"
  have v: "validDate 1000" "validDate (1000 - 5000)" "validDate 3000" "validDate (3000 - 5000)"
    "validDate 10000" "validDate (10000 - 5000)"
    by (simp_all add: validDate_def)
  have same: "m_gigId (?m t) = m_gigId (?m 1000)" "m_senderId (?m t) = m_senderId (?m 1000)"
    "m_text (?m t) = m_text (?m 1000)" "m_timestamp (?m t) = Some t" for t
    by (simp_all add: chat_def)
  have fresh: "findOne_windowed (messages threeClients) (the (m_gigId (?m 1000)))
      (the (m_senderId (?m 1000))) (the (m_text (?m 1000))) (1000 - 5000) = None"
    by (simp add: threeClients_fields findOne_windowed_def)
  have dc: "distinct (clients threeClients)"
    by (simp add: threeClients_fields)
  have o: "outbox (socks threeClients 1) = []"
    using threeClients_admitted(2) by (simp add: threeClients_def eval_defs example_defs)
  note w = windowed_dedup [OF threeClients_admitted(2) threeClients_query(2) dc same(1,2,3)
      chat_ok chat_ok(2) same(4) same(4) v(1,2) _ _ fresh refl refl refl refl]
  from w [of 3000, OF v(3,4)]
  have near: "1 \<in> set (audience threeClients ?q)"
    "messages (onMessage_windowed ?s1 1 (Payload (?m 3000))) =
       messages threeClients @ [newDocument (messages threeClients) (?m 1000) 1000 None]"
    "delivered (outbox (socks (onMessage_windowed ?s1 1 (Payload (?m 3000))) 1)) =
       delivered (outbox (socks threeClients 1)) @
       (if 1 \<in> set (audience threeClients ?q)
        then [populate threeClients (newDocument (messages threeClients) (?m 1000) 1000 None)]
        else [])"
    by simp_all
  from w [of 10000, OF v(5,6)]
  have far: "length (messages (onMessage_windowed ?s1 1 (Payload (?m 10000)))) =
       length (messages threeClients) + 2"
    "length (delivered (outbox (socks (onMessage_windowed ?s1 1 (Payload (?m 10000))) 1))) =
       length (delivered (outbox (socks threeClients 1))) +
       (if 1 \<in> set (audience threeClients ?q) then 2 else 0)"
    by simp_all
  have 1: "length (messages (onMessage_windowed ?s1 1 (Payload (?m 3000)))) = 1"
    unfolding near(2) by (simp add: threeClients_fields)
  have 2: "length (delivered (outbox (socks (onMessage_windowed ?s1 1 (Payload (?m 3000))) 1)))
      = 1"
    unfolding near(3) using near(1) o by simp
  have 3: "length (messages (onMessage_windowed ?s1 1 (Payload (?m 10000)))) = 2"
    unfolding far(1) by (simp add: threeClients_fields)
  have 4: "length (delivered (outbox (socks (onMessage_windowed ?s1 1 (Payload (?m 10000))) 1)))
      = 2"
    unfolding far(2) using near(1) o by simp
  from threeClients_admitted(2) 1 2 3 4 show ?thesis
    by (intro conjI)
qed

section \<open>A message sent on the seller's connection\<close>

lemma chat_seller_ok:
  "\<not> missingFields (chat gigG userS ''hi'' ts)" "\<not> invalidIds (chat gigG userS ''hi'' ts)"
  by (simp_all add: missingFields_def invalidIds_def example_defs truthy_def ObjectId_isValid_def
      isHexDigit_def)

lemma threeClients_seller_audience:
  "audience threeClients \<lparr>q_gigId = gigG, q_sellerId = userS, q_userId = userS\<rparr> = [0]"
  by (simp add: audience_def eligible_def threeClients_def eval_defs example_defs)

text \<open>Claim C1 as stated fails when the seller is the sender. Sockets 0 and 1 are the seller
  and the buyer of the same gig, both admitted; a message sent on the seller's socket is
  accepted and delivered to the seller, and the buyer's socket receives nothing.\<close>

theorem seller_message_counterexample:
  "admitted threeClients 0 \<and> admitted threeClients 1 \<and>
   query (socks threeClients 0) = Some \<lparr>q_gigId = gigG, q_sellerId = userS, q_userId = userS\<rparr> \<and>
   query (socks threeClients 1) = Some \<lparr>q_gigId = gigG, q_sellerId = userS, q_userId = userU\<rparr> \<and>
   length (messages (onMessage_esm 7 threeClients 0
     (Payload (chat gigG userS ''hi'' (Some 1000))))) = 1 \<and>
   length (outbox (socks (onMessage_esm 7 threeClients 0
     (Payload (chat gigG userS ''hi'' (Some 1000)))) 0)) = 1 \<and>
   outbox (socks (onMessage_esm 7 threeClients 0
     (Payload (chat gigG userS ''hi'' (Some 1000)))) 1) = []"
proof -
  let ?q = "\<lparr>q_gigId = gigG, q_sellerId = userS, q_userId = userS\<rparr>"
  let ?m = "chat gigG userS ''hi'' (Some 1000)"
  let ?e = "onMessage_esm 7 threeClients 0 (Payload ?m)"
  have t: "timestampOrNow ?m 7 = 1000"
    by (simp add: timestampOrNow_def truthyNum_def chat_def)
  have v: "validDate 1000"
    by (simp add: validDate_def)
  have e: "?e = persistAndRoute threeClients 0 ?q ?m 1000 None"
    using esm_accept [OF threeClients_query(1) chat_seller_ok [of "Some 1000"], of 7] t
    by simp
  have dc: "distinct (clients threeClients)"
    by (simp add: threeClients_fields)
  have o: "outbox (socks threeClients 0) = []" "outbox (socks threeClients 1) = []"
    by (simp_all add: threeClients_def eval_defs example_defs)
  have 1: "length (messages ?e) = 1"
    unfolding e using v by (simp add: persistAndRoute_messages threeClients_fields)
  have 2: "length (outbox (socks ?e 0)) = 1"
    unfolding e persistAndRoute_socks [OF v dc] using o(1)
    by (simp add: threeClients_seller_audience)
  have 3: "outbox (socks ?e 1) = []"
    unfolding e persistAndRoute_socks [OF v dc] using o(2)
    by (simp add: threeClients_seller_audience)
  from threeClients_admitted(1,2) threeClients_query(1,2) 1 2 3 show ?thesis
    by (intro conjI)
qed

section \<open>The message key of the registry draft\<close>

lemma registry_duplicate:
  assumes "query (socks s ws) = Some q" "\<not> missingFields m" "\<not> invalidIds m"
    and "findOne_messageId (messages s) (dedupKey nowKey m) \<noteq> None"
  shows "onMessage_registry nowKey nowSave s ws (Payload m) = s"
  using assms by (auto simp: onMessage_registry_def)








section \<open>The registry invariant is preserved\<close>

lemma admit_shape:
  assumes "\<not> missingParams h" and "\<not> invalidParams h"
  shows "onConnection_registry s h =
     (let q = \<lparr>q_gigId = the (h_gigId h), q_sellerId = the (h_sellerId h),
                q_userId = the (h_userId h)\<rparr>;
          s1 = (if map_of (activeConnections s) (q_userId q) = None
                then newBucket (accept s) (q_userId q) else accept s);
          uc = the (map_of (activeConnections s1) (q_userId q));
          s2 = registerIn s1 (nextSock s) q uc
      in if 1 < length (buckets s2 uc)
         then evict (q_gigId q) (nextSock s) uc (buckets s2 uc) s2 else s2)"
  using assms
  by (simp add: onConnection_registry_def newBucket_def registerIn_def Let_def)

lemma registry_inv_cong:
  assumes "clients s' = clients s" "nextSock s' = nextSock s"
    and "activeConnections s' = activeConnections s" "buckets s' = buckets s"
    and "nextBucket s' = nextBucket s"
    and "\<And>c. query (socks s' c) = query (socks s c)"
    and "\<And>c. userConnections (socks s' c) = userConnections (socks s c)"
  shows "registry_inv s' = registry_inv s"
  using assms by (simp add: registry_inv_def userIdOf_def)

lemma inv_init: "registry_inv (init ps)"
  by (simp add: registry_inv_def init_def newSocket_def)

lemma inv_accept:
  assumes "registry_inv s"
  shows "registry_inv (accept s)"
proof -
  have m: "c \<noteq> nextSock s" if "c \<in> set (buckets s a)" for c a
    using assms that by (fastforce simp: registry_inv_def)
  show ?thesis
    unfolding registry_inv_def
  proof (intro conjI)
    show "\<forall>e\<in>set (activeConnections (accept s)).
       snd e < nextBucket (accept s) \<and> buckets (accept s) (snd e) \<noteq> [] \<and>
       (\<forall>c\<in>set (buckets (accept s) (snd e)). userIdOf (socks (accept s) c) = Some (fst e))"
      using assms m by (simp add: registry_inv_def userIdOf_def)
    show "\<forall>a. \<forall>c\<in>set (buckets (accept s) a).
       c < nextSock (accept s) \<and> userConnections (socks (accept s) c) = Some a"
      using assms m by (simp add: registry_inv_def less_Suc_eq)
    show "\<forall>c a. userConnections (socks (accept s) c) = Some a \<longrightarrow>
       query (socks (accept s) c) \<noteq> None"
      using assms by (simp add: registry_inv_def newSocket_def)
    show "\<forall>c\<in>set (clients (accept s)). c < nextSock (accept s)"
      using assms by (auto simp: registry_inv_def less_Suc_eq)
  qed
qed

lemma fresh_accept:
  assumes "registry_inv s"
  shows "nextSock s \<notin> set (buckets (accept s) a)"
  using assms by (fastforce simp: registry_inv_def)


lemma registerIn_fields [simp]:
  "clients (registerIn s ws q uc) = clients s"
  "nextSock (registerIn s ws q uc) = nextSock s"
  "nextBucket (registerIn s ws q uc) = nextBucket s"
  "activeConnections (registerIn s ws q uc) = activeConnections s"
  "messages (registerIn s ws q uc) = messages s"
  "buckets (registerIn s ws q uc) a = (if a = uc then setAdd (buckets s uc) ws else buckets s a)"
  "socks (registerIn s ws q uc) c =
     (if c = ws then (socks s ws)\<lparr>query := Some q, userConnections := Some uc\<rparr> else socks s c)"
  by (simp_all add: registerIn_def)

lemma newBucket_fields [simp]:
  "clients (newBucket s u) = clients s"
  "nextSock (newBucket s u) = nextSock s"
  "nextBucket (newBucket s u) = Suc (nextBucket s)"
  "activeConnections (newBucket s u) = activeConnections s @ [(u, nextBucket s)]"
  "messages (newBucket s u) = messages s"
  "buckets (newBucket s u) a = (if a = nextBucket s then [] else buckets s a)"
  "socks (newBucket s u) = socks s"
  by (simp_all add: newBucket_def)

lemma inv_register_old:
  assumes inv: "registry_inv s" and ws: "ws < nextSock s" "\<forall>a. ws \<notin> set (buckets s a)"
    and e: "(q_userId q, uc) \<in> set (activeConnections s)"
  shows "registry_inv (registerIn s ws q uc)"
proof -
  have same: "fst e' = q_userId q"
    if "e' \<in> set (activeConnections s)" "snd e' = uc" for e'
  proof -
    from inv e have "buckets s uc \<noteq> []"
      by (fastforce simp: registry_inv_def)
    then obtain c where c: "c \<in> set (buckets s uc)"
      by (cases "buckets s uc") auto
    from inv e c have "userIdOf (socks s c) = Some (q_userId q)"
      by (fastforce simp: registry_inv_def)
    moreover from inv that c have "userIdOf (socks s c) = Some (fst e')"
      by (fastforce simp: registry_inv_def)
    ultimately show ?thesis by simp
  qed
  show ?thesis
    unfolding registry_inv_def
  proof (intro conjI)
    show "\<forall>e\<in>set (activeConnections (registerIn s ws q uc)).
       snd e < nextBucket (registerIn s ws q uc) \<and> buckets (registerIn s ws q uc) (snd e) \<noteq> [] \<and>
       (\<forall>c\<in>set (buckets (registerIn s ws q uc) (snd e)).
          userIdOf (socks (registerIn s ws q uc) c) = Some (fst e))"
      using inv ws(2) same by (auto simp: registry_inv_def userIdOf_def setAdd_def)
    show "\<forall>a. \<forall>c\<in>set (buckets (registerIn s ws q uc) a).
       c < nextSock (registerIn s ws q uc) \<and>
       userConnections (socks (registerIn s ws q uc) c) = Some a"
      using inv ws by (auto simp: registry_inv_def setAdd_def)
    show "\<forall>c a. userConnections (socks (registerIn s ws q uc) c) = Some a \<longrightarrow>
       query (socks (registerIn s ws q uc) c) \<noteq> None"
      using inv by (auto simp: registry_inv_def)
    show "\<forall>c\<in>set (clients (registerIn s ws q uc)). c < nextSock (registerIn s ws q uc)"
      using inv by (auto simp: registry_inv_def)
  qed
qed

lemma inv_register_new:
  assumes inv: "registry_inv s" and ws: "ws < nextSock s" "\<forall>a. ws \<notin> set (buckets s a)"
  shows "registry_inv (registerIn (newBucket s (q_userId q)) ws q (nextBucket s))"
  unfolding registry_inv_def
proof (intro conjI)
  let ?s = "registerIn (newBucket s (q_userId q)) ws q (nextBucket s)"
  show "\<forall>e\<in>set (activeConnections ?s).
       snd e < nextBucket ?s \<and> buckets ?s (snd e) \<noteq> [] \<and>
       (\<forall>c\<in>set (buckets ?s (snd e)). userIdOf (socks ?s c) = Some (fst e))"
    using inv ws(2) by (auto simp: registry_inv_def userIdOf_def setAdd_def)
  show "\<forall>a. \<forall>c\<in>set (buckets ?s a). c < nextSock ?s \<and> userConnections (socks ?s c) = Some a"
    using inv ws by (auto simp: registry_inv_def setAdd_def)
  show "\<forall>c a. userConnections (socks ?s c) = Some a \<longrightarrow> query (socks ?s c) \<noteq> None"
    using inv by (auto simp: registry_inv_def)
  show "\<forall>c\<in>set (clients ?s). c < nextSock ?s"
    using inv by (auto simp: registry_inv_def)
qed


lemma evict_fields [simp]:
  "clients (evict g ws uc cs s) = clients s"
  "nextSock (evict g ws uc cs s) = nextSock s"
  "nextBucket (evict g ws uc cs s) = nextBucket s"
  "activeConnections (evict g ws uc cs s) = activeConnections s"
  "messages (evict g ws uc cs s) = messages s"
  by (induction cs arbitrary: s; simp)+

lemma evict_buckets_subset: "set (buckets (evict g ws uc cs s) a) \<subseteq> set (buckets s a)"
proof (induction cs arbitrary: s)
  case Nil
  show ?case by simp
next
  case (Cons client cs)
  show ?case
    using Cons [of "(close s client 1008 ''Duplicate connection'')
        \<lparr>buckets := (buckets s)(uc := removeAll client (buckets s uc))\<rparr>"] Cons [of s]
    by (auto split: if_splits)
qed

lemma inv_evict_step:
  assumes inv: "registry_inv s" and ws: "ws \<in> set (buckets s uc)" and ne: "client \<noteq> ws"
  shows "registry_inv ((close s client code r)
      \<lparr>buckets := (buckets s)(uc := removeAll client (buckets s uc))\<rparr>)"
    (is "registry_inv ?s")
  unfolding registry_inv_def
proof (intro conjI)
  have ne': "removeAll client (buckets s uc) \<noteq> []"
  proof
    assume "removeAll client (buckets s uc) = []"
    then have "set (removeAll client (buckets s uc)) = {}" by simp
    with ws ne show False by auto
  qed
  show "\<forall>e\<in>set (activeConnections ?s).
       snd e < nextBucket ?s \<and> buckets ?s (snd e) \<noteq> [] \<and>
       (\<forall>c\<in>set (buckets ?s (snd e)). userIdOf (socks ?s c) = Some (fst e))"
    using inv ne' by (auto simp: registry_inv_def userIdOf_def)
  show "\<forall>a. \<forall>c\<in>set (buckets ?s a). c < nextSock ?s \<and> userConnections (socks ?s c) = Some a"
    using inv by (auto simp: registry_inv_def)
  show "\<forall>c a. userConnections (socks ?s c) = Some a \<longrightarrow> query (socks ?s c) \<noteq> None"
    using inv by (auto simp: registry_inv_def)
  show "\<forall>c\<in>set (clients ?s). c < nextSock ?s"
    using inv by (auto simp: registry_inv_def)
qed

lemma inv_evict:
  assumes "registry_inv s" and "ws \<in> set (buckets s uc)"
  shows "registry_inv (evict g ws uc cs s)"
  using assms
proof (induction cs arbitrary: s)
  case Nil
  then show ?case by simp
next
  case (Cons client cs)
  show ?case
  proof (cases "client \<noteq> ws \<and> gigIdOf (socks s client) = Some g")
    case True
    let ?s = "(close s client 1008 ''Duplicate connection'')
        \<lparr>buckets := (buckets s)(uc := removeAll client (buckets s uc))\<rparr>"
    have "registry_inv ?s"
      using Cons.prems True by (intro inv_evict_step) (simp, simp, blast)
    moreover have "ws \<in> set (buckets ?s uc)"
      using Cons.prems(2) True by simp
    ultimately have "registry_inv (evict g ws uc cs ?s)"
      by (rule Cons.IH)
    with True show ?thesis by simp
  next
    case False
    with Cons show ?thesis by auto
  qed
qed


lemma map_of_snoc_new: "map_of al k = None \<Longrightarrow> map_of (al @ [(k, v)]) k = Some v"
  by (simp add: map_add_def)

lemma setAdd_member: "ws \<in> set (setAdd xs ws)"
  by (simp add: setAdd_def)

lemma inv_onConnection:
  assumes inv: "registry_inv s"
  shows "registry_inv (onConnection_registry s h)"
proof (cases "missingParams h \<or> invalidParams h")
  case True
  show ?thesis
    unfolding registry_reject [OF True]
    using inv_accept [OF inv]
    by (subst registry_inv_cong [where s = "accept s"]) simp_all
next
  case False
  let ?q = "\<lparr>q_gigId = the (h_gigId h), q_sellerId = the (h_sellerId h),
             q_userId = the (h_userId h)\<rparr>"
  let ?u = "the (h_userId h)"
  let ?ws = "nextSock s"
  have ia: "registry_inv (accept s)"
    using inv by (rule inv_accept)
  have lt: "?ws < nextSock (accept s)"
    by simp
  have fr: "\<forall>a. ?ws \<notin> set (buckets (accept s) a)"
    using fresh_accept [OF inv] by blast
  have "\<exists>s2 uc. registry_inv s2 \<and> ?ws \<in> set (buckets s2 uc) \<and>
      onConnection_registry s h =
        (if 1 < length (buckets s2 uc)
         then evict (q_gigId ?q) ?ws uc (buckets s2 uc) s2 else s2)"
  proof (cases "map_of (activeConnections s) ?u")
    case None
    let ?s2 = "registerIn (newBucket (accept s) ?u) ?ws ?q (nextBucket s)"
    have "registry_inv ?s2"
      using inv_register_new [OF ia lt fr, of ?q] by simp
    moreover have "?ws \<in> set (buckets ?s2 (nextBucket s))"
      by (simp add: setAdd_member)
    moreover have "onConnection_registry s h =
        (if 1 < length (buckets ?s2 (nextBucket s))
         then evict (q_gigId ?q) ?ws (nextBucket s) (buckets ?s2 (nextBucket s)) ?s2 else ?s2)"
      using False None
      by (simp add: admit_shape Let_def map_of_snoc_new del: map_of_append)
    ultimately show ?thesis by blast
  next
    case (Some a)
    let ?s2 = "registerIn (accept s) ?ws ?q a"
    have "(q_userId ?q, a) \<in> set (activeConnections (accept s))"
      using Some by (simp add: map_of_SomeD)
    then have "registry_inv ?s2"
      by (rule inv_register_old [OF ia lt fr])
    moreover have "?ws \<in> set (buckets ?s2 a)"
      by (simp add: setAdd_member)
    moreover have "onConnection_registry s h =
        (if 1 < length (buckets ?s2 a)
         then evict (q_gigId ?q) ?ws a (buckets ?s2 a) ?s2 else ?s2)"
      using False Some by (simp add: admit_shape Let_def)
    ultimately show ?thesis by blast
  qed
  then obtain s2 uc where s2: "registry_inv s2" "?ws \<in> set (buckets s2 uc)"
    "onConnection_registry s h =
        (if 1 < length (buckets s2 uc)
         then evict (q_gigId ?q) ?ws uc (buckets s2 uc) s2 else s2)"
    by blast
  show ?thesis
    unfolding s2(3) using s2(1) inv_evict [OF s2(1,2)] by simp
qed


lemma emitClose_fields [simp]:
  "clients (emitClose s c) = removeAll c (clients s)"
  "nextSock (emitClose s c) = nextSock s"
  "nextBucket (emitClose s c) = nextBucket s"
  "activeConnections (emitClose s c) = activeConnections s"
  "buckets (emitClose s c) = buckets s"
  "messages (emitClose s c) = messages s"
  "query (socks (emitClose s c) c') = query (socks s c')"
  "userConnections (socks (emitClose s c) c') = userConnections (socks s c')"
  by (simp_all add: emitClose_def)

lemma inv_emitClose:
  assumes "registry_inv s"
  shows "registry_inv (emitClose s c)"
  using assms by (simp add: registry_inv_def userIdOf_def)

text \<open>The close handler on a state \<open>s\<close> in which the library's part is done.\<close>

lemma inv_close_handler:
  assumes inv: "registry_inv s"
    and uc: "userConnections (socks s ws) = Some uc" and q: "query (socks s ws) = Some q"
  shows "registry_inv
    (if removeAll ws (buckets s uc) = []
     then s\<lparr>buckets := (buckets s)(uc := removeAll ws (buckets s uc)),
            activeConnections := filter (\<lambda>e. fst e \<noteq> q_userId q) (activeConnections s)\<rparr>
     else s\<lparr>buckets := (buckets s)(uc := removeAll ws (buckets s uc))\<rparr>)"
proof (cases "removeAll ws (buckets s uc) = []")
  case False
  let ?s = "s\<lparr>buckets := (buckets s)(uc := removeAll ws (buckets s uc))\<rparr>"
  have "registry_inv ?s"
    unfolding registry_inv_def
  proof (intro conjI)
    show "\<forall>e\<in>set (activeConnections ?s).
       snd e < nextBucket ?s \<and> buckets ?s (snd e) \<noteq> [] \<and>
       (\<forall>c\<in>set (buckets ?s (snd e)). userIdOf (socks ?s c) = Some (fst e))"
      using inv False by (auto simp: registry_inv_def)
    show "\<forall>a. \<forall>c\<in>set (buckets ?s a). c < nextSock ?s \<and> userConnections (socks ?s c) = Some a"
      using inv by (auto simp: registry_inv_def)
    show "\<forall>c a. userConnections (socks ?s c) = Some a \<longrightarrow> query (socks ?s c) \<noteq> None"
      using inv by (auto simp: registry_inv_def)
    show "\<forall>c\<in>set (clients ?s). c < nextSock ?s"
      using inv by (auto simp: registry_inv_def)
  qed
  with False show ?thesis by simp
next
  case True
  let ?s = "s\<lparr>buckets := (buckets s)(uc := removeAll ws (buckets s uc)),
            activeConnections := filter (\<lambda>e. fst e \<noteq> q_userId q) (activeConnections s)\<rparr>"
  have only: "set (buckets s uc) \<subseteq> {ws}"
    using True by (metis set_removeAll Diff_eq_empty_iff set_empty)
  have other: "snd e \<noteq> uc" if "e \<in> set (activeConnections s)" "fst e \<noteq> q_userId q" for e
  proof
    assume "snd e = uc"
    with inv that(1) have ne: "buckets s uc \<noteq> []"
      and us: "\<forall>c\<in>set (buckets s uc). userIdOf (socks s c) = Some (fst e)"
      by (auto simp: registry_inv_def)
    from ne only have "ws \<in> set (buckets s uc)"
      by (cases "buckets s uc") auto
    with us have "userIdOf (socks s ws) = Some (fst e)"
      by blast
    with q that(2) show False
      by (simp add: userIdOf_def)
  qed
  have "registry_inv ?s"
    unfolding registry_inv_def
  proof (intro conjI)
    show "\<forall>e\<in>set (activeConnections ?s).
       snd e < nextBucket ?s \<and> buckets ?s (snd e) \<noteq> [] \<and>
       (\<forall>c\<in>set (buckets ?s (snd e)). userIdOf (socks ?s c) = Some (fst e))"
      using inv other by (auto simp: registry_inv_def)
    show "\<forall>a. \<forall>c\<in>set (buckets ?s a). c < nextSock ?s \<and> userConnections (socks ?s c) = Some a"
      using inv by (auto simp: registry_inv_def)
    show "\<forall>c a. userConnections (socks ?s c) = Some a \<longrightarrow> query (socks ?s c) \<noteq> None"
      using inv by (auto simp: registry_inv_def)
    show "\<forall>c\<in>set (clients ?s). c < nextSock ?s"
      using inv by (auto simp: registry_inv_def)
  qed
  with True show ?thesis by simp
qed

lemma onClose_registry_shape:
  "onClose_registry s ws =
     (case (userConnections (socks s ws), query (socks s ws)) of
        (Some uc, Some q) \<Rightarrow>
          if removeAll ws (buckets s uc) = []
          then (emitClose s ws)\<lparr>buckets := (buckets s)(uc := removeAll ws (buckets s uc)),
                 activeConnections := filter (\<lambda>e. fst e \<noteq> q_userId q) (activeConnections s)\<rparr>
          else (emitClose s ws)\<lparr>buckets := (buckets s)(uc := removeAll ws (buckets s uc))\<rparr>
      | _ \<Rightarrow> emitClose s ws)"
  by (simp add: onClose_registry_def Let_def split: option.splits)

lemma inv_onClose:
  assumes inv: "registry_inv s"
  shows "registry_inv (onClose_registry s ws)"
proof (cases "userConnections (socks s ws)")
  case None
  then show ?thesis
    using inv_emitClose [OF inv] by (simp add: onClose_registry_shape)
next
  case (Some uc)
  show ?thesis
  proof (cases "query (socks s ws)")
    case None
    with Some show ?thesis
      using inv_emitClose [OF inv] by (simp add: onClose_registry_shape)
  next
    case q: (Some q)
    have "registry_inv
      (if removeAll ws (buckets (emitClose s ws) uc) = []
       then (emitClose s ws)\<lparr>buckets := (buckets (emitClose s ws))
                (uc := removeAll ws (buckets (emitClose s ws) uc)),
              activeConnections := filter (\<lambda>e. fst e \<noteq> q_userId q)
                (activeConnections (emitClose s ws))\<rparr>
       else (emitClose s ws)\<lparr>buckets := (buckets (emitClose s ws))
                (uc := removeAll ws (buckets (emitClose s ws) uc))\<rparr>)"
      using Some q by (intro inv_close_handler inv_emitClose inv) simp_all
    then show ?thesis
      using Some q
      by (cases "removeAll ws (buckets s uc) = []") (simp_all add: onClose_registry_shape)
  qed
qed


lemma persistAndRoute_frame:
  "clients (persistAndRoute s ws q m ts mid) = clients s"
  "nextSock (persistAndRoute s ws q m ts mid) = nextSock s"
  "nextBucket (persistAndRoute s ws q m ts mid) = nextBucket s"
  "activeConnections (persistAndRoute s ws q m ts mid) = activeConnections s"
  "buckets (persistAndRoute s ws q m ts mid) = buckets s"
  "query (socks (persistAndRoute s ws q m ts mid) c) = query (socks s c)"
  "userConnections (socks (persistAndRoute s ws q m ts mid) c) = userConnections (socks s c)"
  by (cases "validDate ts";
      simp add: persistAndRoute_valid persistAndRoute_invalid broadcast_socks)+

lemma onMessage_registry_frame:
  "clients (onMessage_registry nk ns s ws data) = clients s"
  "nextSock (onMessage_registry nk ns s ws data) = nextSock s"
  "nextBucket (onMessage_registry nk ns s ws data) = nextBucket s"
  "activeConnections (onMessage_registry nk ns s ws data) = activeConnections s"
  "buckets (onMessage_registry nk ns s ws data) = buckets s"
  "query (socks (onMessage_registry nk ns s ws data) c) = query (socks s c)"
  "userConnections (socks (onMessage_registry nk ns s ws data) c) =
     userConnections (socks s c)"
  by (simp_all add: onMessage_registry_def persistAndRoute_frame Let_def
      split: option.splits frame.splits)

lemma inv_onMessage:
  "registry_inv (onMessage_registry nk ns s ws data) = registry_inv s"
  by (rule registry_inv_cong) (simp_all add: onMessage_registry_frame)

lemma inv_step: "registry_inv s \<Longrightarrow> registry_inv (step_registry s e)"
  by (cases e) (simp_all add: inv_onConnection inv_onClose inv_onMessage)

lemma inv_run: "registry_inv s \<Longrightarrow> registry_inv (run_registry s evs)"
  unfolding run_registry_def by (induction evs arbitrary: s) (simp_all add: inv_step)

lemma run_registry_append:
  "run_registry s (evs @ evs') = run_registry (run_registry s evs) evs'"
  by (simp add: run_registry_def)


lemma admit_steps:
  assumes "\<not> (missingParams h \<or> invalidParams h)"
  shows "\<exists>s1 q uc. (s1 = accept s \<or> s1 = newBucket (accept s) (q_userId q)) \<and>
     onConnection_registry s h =
       (if 1 < length (buckets (registerIn s1 (nextSock s) q uc) uc)
        then evict (q_gigId q) (nextSock s) uc (buckets (registerIn s1 (nextSock s) q uc) uc)
               (registerIn s1 (nextSock s) q uc)
        else registerIn s1 (nextSock s) q uc)"
proof -
  let ?q = "\<lparr>q_gigId = the (h_gigId h), q_sellerId = the (h_sellerId h),
             q_userId = the (h_userId h)\<rparr>"
  let ?s1 = "if map_of (activeConnections s) (q_userId ?q) = None
             then newBucket (accept s) (q_userId ?q) else accept s"
  let ?uc = "the (map_of (activeConnections ?s1) (q_userId ?q))"
  have "onConnection_registry s h =
       (if 1 < length (buckets (registerIn ?s1 (nextSock s) ?q ?uc) ?uc)
        then evict (q_gigId ?q) (nextSock s) ?uc (buckets (registerIn ?s1 (nextSock s) ?q ?uc) ?uc)
               (registerIn ?s1 (nextSock s) ?q ?uc)
        else registerIn ?s1 (nextSock s) ?q ?uc)"
    using assms by (simp only: admit_shape Let_def de_Morgan_disj simp_thms)
  moreover have "?s1 = accept s \<or> ?s1 = newBucket (accept s) (q_userId ?q)"
    by simp
  ultimately show ?thesis by blast
qed

lemma onConnection_registry_grows:
  "clients (onConnection_registry s h) = clients s @ [nextSock s]"
  "nextSock (onConnection_registry s h) = Suc (nextSock s)"
  "set (buckets (onConnection_registry s h) a) \<subseteq> insert (nextSock s) (set (buckets s a))"
proof -
  show "clients (onConnection_registry s h) = clients s @ [nextSock s]"
  proof (cases "missingParams h \<or> invalidParams h")
    case True
    then show ?thesis by (simp add: registry_reject)
  next
    case False
    from admit_steps [OF False, of s] show ?thesis by auto
  qed
  show "nextSock (onConnection_registry s h) = Suc (nextSock s)"
  proof (cases "missingParams h \<or> invalidParams h")
    case True
    then show ?thesis by (simp add: registry_reject)
  next
    case False
    from admit_steps [OF False, of s] show ?thesis by auto
  qed
  show "set (buckets (onConnection_registry s h) a) \<subseteq> insert (nextSock s) (set (buckets s a))"
  proof (cases "missingParams h \<or> invalidParams h")
    case True
    then show ?thesis by (auto simp: registry_reject)
  next
    case False
    from admit_steps [OF False, of s] obtain s1 q uc where
      s1: "s1 = accept s \<or> s1 = newBucket (accept s) (q_userId q)"
      and e: "onConnection_registry s h =
       (if 1 < length (buckets (registerIn s1 (nextSock s) q uc) uc)
        then evict (q_gigId q) (nextSock s) uc (buckets (registerIn s1 (nextSock s) q uc) uc)
               (registerIn s1 (nextSock s) q uc)
        else registerIn s1 (nextSock s) q uc)"
      by blast
    have 1: "set (buckets s1 a) \<subseteq> set (buckets s a)"
      using s1 by (auto split: if_splits)
    have 2: "set (buckets (registerIn s1 (nextSock s) q uc) a) \<subseteq>
        insert (nextSock s) (set (buckets s1 a))"
      by (auto simp: setAdd_def)
    have 3: "set (buckets (onConnection_registry s h) a) \<subseteq>
        set (buckets (registerIn s1 (nextSock s) q uc) a)"
    proof (cases "1 < length (buckets (registerIn s1 (nextSock s) q uc) uc)")
      case True
      have "onConnection_registry s h =
          evict (q_gigId q) (nextSock s) uc (buckets (registerIn s1 (nextSock s) q uc) uc)
            (registerIn s1 (nextSock s) q uc)"
        using e True by (simp only: if_True)
      then show ?thesis
        by (simp only: evict_buckets_subset)
    next
      case False
      have "onConnection_registry s h = registerIn s1 (nextSock s) q uc"
        using e False by (simp only: if_False)
      then show ?thesis
        by (simp only: subset_refl)
    qed
    from 1 2 3 show ?thesis by blast
  qed
qed

lemma onClose_registry_shrinks:
  "clients (onClose_registry s ws) = removeAll ws (clients s)"
  "nextSock (onClose_registry s ws) = nextSock s"
  "set (buckets (onClose_registry s ws) a) \<subseteq> set (buckets s a)"
  by (auto simp: onClose_registry_shape split: option.splits if_splits)

lemma gone_step: "gone s c \<Longrightarrow> gone (step_registry s e) c"
proof (cases e)
  case (Connect h)
  assume "gone s c"
  then show ?thesis
    unfolding Connect gone_def
    using onConnection_registry_grows(3) [of s h]
    by (auto simp: onConnection_registry_grows(1,2))
next
  case (Message ws data nk ns)
  assume "gone s c"
  then show ?thesis
    unfolding Message gone_def by (simp add: onMessage_registry_frame)
next
  case (Close ws)
  assume "gone s c"
  then show ?thesis
    unfolding Close gone_def
    using onClose_registry_shrinks(3) [of s ws]
    by (auto simp: onClose_registry_shrinks(1,2))
qed

lemma gone_run: "gone s c \<Longrightarrow> gone (run_registry s evs) c"
  unfolding run_registry_def by (induction evs arbitrary: s) (simp_all add: gone_step)

lemma close_makes_gone:
  assumes inv: "registry_inv s" and c: "c \<in> set (clients s)"
  shows "gone (onClose_registry s c) c"
proof -
  have lt: "c < nextSock s"
    using inv c by (simp add: registry_inv_def)
  have own: "userConnections (socks s c) = Some a" if "c \<in> set (buckets s a)" for a
    using inv that by (simp add: registry_inv_def)
  have q: "query (socks s c) \<noteq> None" if "userConnections (socks s c) = Some a" for a
    using inv that by (auto simp: registry_inv_def)
  have "c \<notin> set (buckets (onClose_registry s c) a)" for a
  proof
    assume m: "c \<in> set (buckets (onClose_registry s c) a)"
    then have "c \<in> set (buckets s a)"
      using onClose_registry_shrinks(3) by blast
    then have uc: "userConnections (socks s c) = Some a"
      by (rule own)
    with q obtain qq where "query (socks s c) = Some qq"
      by blast
    with uc m show False
      by (simp add: onClose_registry_shape split: if_splits)
  qed
  then show ?thesis
    using lt by (simp add: gone_def onClose_registry_shrinks)
qed

section \<open>The lookup of a message key in the registry draft\<close>

text \<open>No handler of the registry draft stores a document with a \<^verbatim>\<open>messageId\<close>: the schema has
  no such path.\<close>

lemma onConnection_registry_messages: "messages (onConnection_registry s h) = messages s"
proof (cases "missingParams h \<or> invalidParams h")
  case True
  then show ?thesis by (simp add: registry_reject)
next
  case False
  from admit_steps [OF False, of s] show ?thesis by auto
qed

lemma onClose_registry_messages: "messages (onClose_registry s ws) = messages s"
  by (simp add: onClose_registry_shape split: option.splits)

lemma persistAndRoute_no_messageId:
  assumes "\<forall>d\<in>set (messages s). d_messageId d = None"
  shows "\<forall>d\<in>set (messages (persistAndRoute s ws q m ts mid)). d_messageId d = None"
  using assms
  by (cases "validDate ts") (simp_all add: persistAndRoute_messages persistAndRoute_invalid)

lemma onMessage_registry_no_messageId:
  assumes "\<forall>d\<in>set (messages s). d_messageId d = None"
  shows "\<forall>d\<in>set (messages (onMessage_registry nk ns s ws data)). d_messageId d = None"
proof (cases "messages (onMessage_registry nk ns s ws data) = messages s")
  case True
  with assms show ?thesis by simp
next
  case False
  from registry_stored [OF False] obtain q m where
    "onMessage_registry nk ns s ws data =
       persistAndRoute s ws q m (timestampOrNow m ns) (Some (dedupKey nk m))"
    by blast
  then show ?thesis
    using persistAndRoute_no_messageId [OF assms] by simp
qed

lemma step_registry_no_messageId:
  assumes "\<forall>d\<in>set (messages s). d_messageId d = None"
  shows "\<forall>d\<in>set (messages (step_registry s e)). d_messageId d = None"
  using assms onMessage_registry_no_messageId [OF assms]
  by (cases e) (simp_all add: onConnection_registry_messages onClose_registry_messages)

lemma run_registry_no_messageId:
  assumes "\<forall>d\<in>set (messages s). d_messageId d = None"
  shows "\<forall>d\<in>set (messages (run_registry s evs)). d_messageId d = None"
  using assms unfolding run_registry_def
proof (induction evs arbitrary: s)
  case Nil
  then show ?case by simp
next
  case (Cons e evs)
  from Cons.prems have "\<forall>d\<in>set (messages (step_registry s e)). d_messageId d = None"
    by (rule step_registry_no_messageId)
  then have "\<forall>d\<in>set (messages (foldl step_registry (step_registry s e) evs)).
      d_messageId d = None"
    by (rule Cons.IH)
  then show ?case by simp
qed

text \<open>In every state that the registry draft reaches from its initial state, the lookup of a
  message key finds nothing: the registry draft never drops a message as a duplicate.\<close>

lemma registry_lookup_finds_nothing:
  "findOne_messageId (messages (run_registry (init ps) evs)) k = None"
proof -
  have "\<forall>d\<in>set (messages (run_registry (init ps) evs)). d_messageId d = None"
    by (rule run_registry_no_messageId) (simp add: init_def)
  then show ?thesis
    by (simp add: findOne_messageId_def find_None_iff)
qed


section \<open>Closing a connection (registry draft)\<close>

lemma registered_member: "c \<in> set (registered s) \<Longrightarrow> \<exists>a. c \<in> set (buckets s a)"
  by (auto simp: registered_def)

lemma gone_unseen:
  assumes "gone s c"
  shows "c \<notin> set (clients s)" and "c \<notin> set (registered s)" and "c \<notin> set (audience s q)"
  using assms registered_member [of c s] by (auto simp: gone_def audience_def)

lemma map_of_filter_out: "map_of (filter (\<lambda>e. fst e \<noteq> k) al) k = None"
  by (auto simp: map_of_eq_None_iff)

lemma onClose_registry_empties:
  assumes "userConnections (socks s ws) = Some uc" and "query (socks s ws) = Some q"
    and "buckets (onClose_registry s ws) uc = []"
  shows "map_of (activeConnections (onClose_registry s ws)) (q_userId q) = None"
proof (cases "removeAll ws (buckets s uc) = []")
  case True
  with assms(1,2) show ?thesis
    by (simp add: onClose_registry_shape map_of_filter_out)
next
  case False
  with assms show ?thesis
    by (simp add: onClose_registry_shape)
qed

text \<open>
  Claim C5. Take any state \<open>S\<close> that the registry draft reaches from its initial state and any
  live client \<open>c\<close> of it, and let \<open>S'\<close> be the state after the close event of \<open>c\<close>. Then \<open>c\<close> is no
  longer a client and no longer in the registry, and after any further events it is still
  neither a client nor in the registry nor in the audience of any conversation. When the Set
  that the close handler of \<open>c\<close> closes over is empty after the removal, the Map has no entry for
  the user of \<open>c\<close>; and no entry of the Map points to an empty Set.
\<close>

theorem close_removes_connection:
  assumes S: "S = run_registry (init ps) evs" and c: "c \<in> set (clients S)"
    and S': "S' = onClose_registry S c"
  shows "c \<notin> set (clients S')
    \<and> c \<notin> set (registered S')
    \<and> (\<forall>evs'. c \<notin> set (clients (run_registry S' evs')) \<and>
              c \<notin> set (registered (run_registry S' evs')) \<and>
              (\<forall>q. c \<notin> set (audience (run_registry S' evs') q)))
    \<and> (\<forall>uc q. userConnections (socks S c) = Some uc \<and> query (socks S c) = Some q \<and>
              buckets S' uc = [] \<longrightarrow>
              map_of (activeConnections S') (q_userId q) = None)
    \<and> (\<forall>e\<in>set (activeConnections S'). buckets S' (snd e) \<noteq> [])"
proof -
  have inv: "registry_inv S"
    unfolding S using inv_init by (rule inv_run)
  have g: "gone S' c"
    unfolding S' using inv c by (rule close_makes_gone)
  have g': "gone (run_registry S' evs') c" for evs'
    using g by (rule gone_run)
  have inv': "registry_inv S'"
    unfolding S' using inv by (rule inv_onClose)
  have 1: "c \<notin> set (clients S')" "c \<notin> set (registered S')"
    using gone_unseen [OF g] by simp_all
  have 2: "\<forall>evs'. c \<notin> set (clients (run_registry S' evs')) \<and>
              c \<notin> set (registered (run_registry S' evs')) \<and>
              (\<forall>q. c \<notin> set (audience (run_registry S' evs') q))"
    using gone_unseen [OF g'] by blast
  have 3: "\<forall>uc q. userConnections (socks S c) = Some uc \<and> query (socks S c) = Some q \<and>
              buckets S' uc = [] \<longrightarrow>
              map_of (activeConnections S') (q_userId q) = None"
    unfolding S' using onClose_registry_empties by blast
  have 4: "\<forall>e\<in>set (activeConnections S'). buckets S' (snd e) \<noteq> []"
    using inv' by (simp add: registry_inv_def)
  from 1 2 3 4 show ?thesis by blast
qed

theorem close_removes_connection_witness:
  "0 \<in> set (clients threeRegistered) \<and>
   userConnections (socks threeRegistered 0) = Some 0 \<and>
   query (socks threeRegistered 0) =
     Some \<lparr>q_gigId = gigG, q_sellerId = userS, q_userId = userS\<rparr> \<and>
   buckets (onClose_registry threeRegistered 0) 0 = [] \<and>
   0 \<notin> set (clients (onClose_registry threeRegistered 0)) \<and>
   0 \<notin> set (registered (onClose_registry threeRegistered 0)) \<and>
   0 \<notin> set (audience (run_registry (onClose_registry threeRegistered 0)
          [Connect (handshakeOf gigG userS userS)])
        \<lparr>q_gigId = gigG, q_sellerId = userS, q_userId = userU\<rparr>) \<and>
   map_of (activeConnections (onClose_registry threeRegistered 0)) userS = None \<and>
   activeConnections (onClose_registry threeRegistered 0) = [(userU, 1)]"
proof -
  let ?q = "\<lparr>q_gigId = gigG, q_sellerId = userS, q_userId = userS\<rparr>"
  let ?S' = "onClose_registry threeRegistered 0"
  have p: "0 \<in> set (clients threeRegistered)"
    "userConnections (socks threeRegistered 0) = Some 0"
    "query (socks threeRegistered 0) = Some ?q"
    "buckets ?S' 0 = []"
    "activeConnections ?S' = [(userU, 1)]"
    by code_simp+
  note w = close_removes_connection [OF threeRegistered_def p(1) refl]
  from w have 1: "0 \<notin> set (clients ?S')" "0 \<notin> set (registered ?S')"
    by blast+
  from w have 2: "0 \<notin> set (audience (run_registry ?S' [Connect (handshakeOf gigG userS userS)])
        \<lparr>q_gigId = gigG, q_sellerId = userS, q_userId = userU\<rparr>)"
    by blast
  from w p(2,3,4) have "map_of (activeConnections ?S') (q_userId ?q) = None"
    by blast
  then have 3: "map_of (activeConnections ?S') userS = None"
    by simp
  from p(1,2,3,4) 1 2 3 p(5) show ?thesis
    by (intro conjI)
qed

section \<open>A late close event of a superseded connection\<close>

text \<open>
  Claim C2 fails on the code. In the run \<open>staleCloseRun\<close> the close event of the superseded
  socket 0 arrives after socket 1 has closed and socket 2 has connected; its handler finds the
  Set that it closes over empty and deletes the Map entry of the user, which by then points to
  the Set of socket 2. So socket 3 is admitted for the same user and gig without socket 2 being
  closed. When socket 4 is admitted next, the pair has the registered socket 3, which is closed;
  socket 2, an older connection of the same user and gig, stays open and is never sent a close.
\<close>

theorem stale_close_keeps_older_connection:
  "registered staleCloseState = [3] \<and>
   pairOf staleCloseState 3 = (Some userU, Some gigG) \<and>
   pairOf staleCloseState 2 = (Some userU, Some gigG) \<and>
   admitted staleCloseState 2 \<and> admitted staleCloseState 3 \<and>
   registered (onConnection_registry staleCloseState (handshakeOf gigG userS userU)) = [4] \<and>
   pairOf (onConnection_registry staleCloseState (handshakeOf gigG userS userU)) 4 =
     (Some userU, Some gigG) \<and>
   pairOf (onConnection_registry staleCloseState (handshakeOf gigG userS userU)) 2 =
     (Some userU, Some gigG) \<and>
   admitted (onConnection_registry staleCloseState (handshakeOf gigG userS userU)) 4 \<and>
   admitted (onConnection_registry staleCloseState (handshakeOf gigG userS userU)) 2 \<and>
   closeCalls (socks (onConnection_registry staleCloseState (handshakeOf gigG userS userU)) 2)
     = [] \<and>
   closeCalls (socks (onConnection_registry staleCloseState (handshakeOf gigG userS userU)) 3)
     = [(1008, ''Duplicate connection'')]"
  by code_simp

end
